theory Spec2Isabelle
  imports Main "HOL-Library.Word"
begin

section \<open>The rate limiter of discordgo (ratelimit.go)\<close>

text \<open>
  A shallow embedding of \<^verbatim>\<open>ratelimit.go\<close>: the registry of buckets, the custom rules,
  \<^verbatim>\<open>LockBucket\<close> and \<^verbatim>\<open>Release\<close>. Go's \<^verbatim>\<open>int\<close>, \<^verbatim>\<open>int64\<close> and
  \<^verbatim>\<open>time.Duration\<close> are 64-bit words read as two's complement (a 64-bit platform), so
  every \<^verbatim>\<open>+\<close>, \<^verbatim>\<open>-\<close> and \<^verbatim>\<open>*\<close> wraps as it does in Go. Pointers are addresses into two
  stores, one of buckets and one of rules, because rules are shared between the registry and
  the buckets and are mutated in place.
\<close>

subsection \<open>Package time\<close>

text \<open>
  An instant is a count of nanoseconds since the Unix epoch. Go stores 64-bit seconds and so
  covers hundreds of billions of years; the model leaves instants unbounded. The wall clock
  and the monotonic clock are one time line here. A \<^verbatim>\<open>Duration\<close> is an \<^verbatim>\<open>int64\<close> of
  nanoseconds, at most about 292 years.
\<close>

type_synonym Time = int
type_synonym Duration = "64 word"

definition Millisecond :: Duration where
  "Millisecond = 1000000"

definition maxDuration :: Duration where
  "maxDuration = 9223372036854775807"

definition minDuration :: Duration where
  "minDuration = - 9223372036854775808"

text \<open>The zero \<^verbatim>\<open>time.Time\<close> is January 1 of year 1, 62135596800 seconds before the epoch.\<close>

definition zeroTime :: Time where
  "zeroTime = - 62135596800000000000"

text \<open>\<^verbatim>\<open>t.Sub(u)\<close> is \<^verbatim>\<open>t - u\<close>, and the largest or smallest duration when that does not fit.\<close>

definition Time_Sub :: "Time \<Rightarrow> Time \<Rightarrow> Duration" where
  "Time_Sub t u =
     (if 9223372036854775807 < t - u then maxDuration
      else if t - u < - 9223372036854775808 then minDuration
      else word_of_int (t - u))"

definition Time_Add :: "Time \<Rightarrow> Duration \<Rightarrow> Time" where
  "Time_Add t d = t + sint d"

definition Time_After :: "Time \<Rightarrow> Time \<Rightarrow> bool" where
  "Time_After t u = (u < t)"

definition Time_Before :: "Time \<Rightarrow> Time \<Rightarrow> bool" where
  "Time_Before t u = (t < u)"

text \<open>
  \<^verbatim>\<open>time.Unix(sec, nsec)\<close>, as package time computes it: nanoseconds outside
  \<open>[0, 999999999]\<close> are carried into the seconds (Go's \<^verbatim>\<open>/\<close> truncates towards zero), and
  the seconds are stored counted from year 1, \<^verbatim>\<open>sec + 62135596800\<close> in \<^verbatim>\<open>int64\<close>, which
  wraps for \<open>sec\<close> within 62135596800 of the largest \<^verbatim>\<open>int64\<close>. The instant is the stored
  pair read back against the Unix epoch.
\<close>

definition Unix :: "64 word \<Rightarrow> 64 word \<Rightarrow> Time" where
  "Unix sec nsec =
     (let n = (if sint nsec < 0 \<or> 1000000000 \<le> sint nsec
               then sgn (sint nsec) * (\<bar>sint nsec\<bar> div 1000000000) else 0);
          nsec1 = sint nsec - n * 1000000000;
          sec1 = sec + word_of_int n - (if nsec1 < 0 then 1 else 0);
          nsec2 = (if nsec1 < 0 then nsec1 + 1000000000 else nsec1)
      in (sint (sec1 + 62135596800) - 62135596800) * 1000000000 + nsec2)"

text \<open>\<^verbatim>\<open>t.UnixNano()\<close> wraps outside the years 1678 to 2262.\<close>

definition UnixNano :: "Time \<Rightarrow> 64 word" where
  "UnixNano t = word_of_int t"

subsection \<open>Package strings and strconv, and http.Header\<close>

definition HasSuffix :: "string \<Rightarrow> string \<Rightarrow> bool" where
  "HasSuffix s suff =
     (length suff \<le> length s \<and> drop (length s - length suff) s = suff)"

datatype error = ErrSyntax | ErrRange | ErrParseTime | ErrNotFound

definition digit :: "char \<Rightarrow> nat option" where
  "digit c =
     (if 48 \<le> (of_char c :: nat) \<and> (of_char c :: nat) \<le> 57
      then Some (of_char c - 48) else None)"

text \<open>
  \<^verbatim>\<open>strconv.ParseUint(s, 10, bitSize)\<close> on a string that is not empty: a byte that is no
  decimal digit is a syntax error, a value above \<open>2 ^ bitSize - 1\<close> a range error, whichever
  the scan from the left meets first.
\<close>

fun ParseUint_loop :: "nat \<Rightarrow> nat \<Rightarrow> string \<Rightarrow> error + nat" where
  "ParseUint_loop bitSize n [] = Inr n"
| "ParseUint_loop bitSize n (c # cs) =
     (case digit c of
        None \<Rightarrow> Inl ErrSyntax
      | Some d \<Rightarrow>
          if 2 ^ bitSize - 1 < n * 10 + d then Inl ErrRange
          else ParseUint_loop bitSize (n * 10 + d) cs)"

definition ParseUint :: "string \<Rightarrow> nat \<Rightarrow> error + nat" where
  "ParseUint s bitSize = (if s = [] then Inl ErrSyntax else ParseUint_loop bitSize 0 s)"

text \<open>
  \<^verbatim>\<open>strconv.ParseInt(s, 10, bitSize)\<close>: an optional sign, then the digits; the value has to
  fit a signed integer of \<open>bitSize\<close> bits. The result is an \<^verbatim>\<open>int64\<close>.
\<close>

definition ParseInt :: "string \<Rightarrow> nat \<Rightarrow> error + 64 word" where
  "ParseInt s bitSize =
     (case s of
        [] \<Rightarrow> Inl ErrSyntax
      | c # cs \<Rightarrow>
          let neg = (c = CHR ''-'');
              s' = (if c = CHR ''+'' \<or> c = CHR ''-'' then cs else s)
          in (case ParseUint s' bitSize of
                Inl e \<Rightarrow> Inl e
              | Inr un \<Rightarrow>
                  if \<not> neg \<and> 2 ^ (bitSize - 1) \<le> un then Inl ErrRange
                  else if neg \<and> 2 ^ (bitSize - 1) < un then Inl ErrRange
                  else Inr (if neg then - word_of_nat un else word_of_nat un)))"

text \<open>
  An \<^verbatim>\<open>http.Header\<close> maps a canonical name to its values; \<^verbatim>\<open>nil\<close> is \<open>None\<close> at the
  call. \<^verbatim>\<open>Get\<close> canonicalises the name (for a name made of token bytes, as all names
  read here are: a capital at the start and after each hyphen, small letters elsewhere) and
  returns the first value, or the empty string. A header that is absent and a header whose
  first value is empty read the same.
\<close>

type_synonym Header = "string \<rightharpoonup> string list"

definition upper :: "char \<Rightarrow> char" where
  "upper c =
     (if 97 \<le> (of_char c :: nat) \<and> (of_char c :: nat) \<le> 122
      then char_of (of_char c - 32 :: nat) else c)"

definition lower :: "char \<Rightarrow> char" where
  "lower c =
     (if 65 \<le> (of_char c :: nat) \<and> (of_char c :: nat) \<le> 90
      then char_of (of_char c + 32 :: nat) else c)"

fun canonical :: "bool \<Rightarrow> string \<Rightarrow> string" where
  "canonical up [] = []"
| "canonical up (c # cs) = (if up then upper c else lower c) # canonical (c = CHR ''-'') cs"

definition CanonicalMIMEHeaderKey :: "string \<Rightarrow> string" where
  "CanonicalMIMEHeaderKey s = canonical True s"

definition Get :: "Header \<Rightarrow> string \<Rightarrow> string" where
  "Get h key =
     (case h (CanonicalMIMEHeaderKey key) of
        None \<Rightarrow> []
      | Some [] \<Rightarrow> []
      | Some (v # _) \<Rightarrow> v)"

subsection \<open>The data of the rate limiter\<close>

type_synonym rule_ptr = nat
type_synonym bucket_ptr = nat

record customRateLimit =
  suffix :: string
  requests :: "64 word"
  reset :: Duration

text \<open>
  A bucket. \<open>locked\<close> is the embedded \<^verbatim>\<open>sync.Mutex\<close>, the admission slot. The field
  \<^verbatim>\<open>global\<close> of the source points at the cell of the rate limiter in every bucket, so the
  cell is read in the rate limiter. \<^verbatim>\<open>crlmut\<close> is taken and given back inside one call and
  is free between calls.
\<close>

record Bucket =
  locked :: bool
  Key :: string
  remaining :: "64 word"
  limit :: "64 word"
  reset :: Time
  lastReset :: Time
  customRateLimit :: "rule_ptr option"

text \<open>
  The rate limiter: \<open>global\<close> is the cell \<^verbatim>\<open>r.global\<close> points at, \<open>buckets\<close> the map
  (each key once), \<open>customRateLimits\<close> the slice of rule pointers.
\<close>

record RateLimiter =
  global :: "64 word"
  buckets :: "(string \<times> bucket_ptr) list"
  globalRateLimit :: Duration
  customRateLimits :: "rule_ptr list"

text \<open>
  The program state: the rate limiter, the clock that \<^verbatim>\<open>time.Now()\<close> reads, and the two
  stores with their next free addresses. The time the instructions themselves take is not
  modelled: the clock moves only where a call sleeps.
\<close>

record state = RateLimiter +
  now :: Time
  bucketAt :: "bucket_ptr \<Rightarrow> Bucket"
  nextBucket :: bucket_ptr
  ruleAt :: "rule_ptr \<Rightarrow> customRateLimit"
  nextRule :: rule_ptr

definition NewRatelimiter :: "Time \<Rightarrow> state" where
  "NewRatelimiter t =
     \<lparr>global = 0, buckets = [], globalRateLimit = 0, customRateLimits = [],
      now = t,
      bucketAt = (\<lambda>_. \<lparr>locked = False, Key = [], remaining = 0, limit = 0, reset = zeroTime,
                        lastReset = zeroTime, customRateLimit = None\<rparr>),
      nextBucket = 0,
      ruleAt = (\<lambda>_. \<lparr>suffix = [], requests = 0, reset = 0\<rparr>),
      nextRule = 0\<rparr>"

definition update_bucket :: "bucket_ptr \<Rightarrow> (Bucket \<Rightarrow> Bucket) \<Rightarrow> state \<Rightarrow> state" where
  "update_bucket b f w = w\<lparr>bucketAt := (bucketAt w)(b := f (bucketAt w b))\<rparr>"

text \<open>\<^verbatim>\<open>for _, v := range r.buckets\<close> with a body that changes \<^verbatim>\<open>v\<close> alone.\<close>

definition range_buckets :: "(Bucket \<Rightarrow> Bucket) \<Rightarrow> state \<Rightarrow> state" where
  "range_buckets f w = fold (\<lambda>kv. update_bucket (snd kv) f) (buckets w) w"

subsection \<open>SetCustomRateLimit and RemoveCustomRateLimit\<close>

text \<open>The first rule of the slice with the given suffix, if any.\<close>

fun find_rule :: "(rule_ptr \<Rightarrow> customRateLimit) \<Rightarrow> string \<Rightarrow> rule_ptr list \<Rightarrow> rule_ptr option" where
  "find_rule h sfx [] = None"
| "find_rule h sfx (v # vs) = (if suffix (h v) = sfx then Some v else find_rule h sfx vs)"

definition attach :: "string \<Rightarrow> rule_ptr \<Rightarrow> Bucket \<Rightarrow> Bucket" where
  "attach sfx rl v = (if HasSuffix (Key v) sfx then v\<lparr>customRateLimit := Some rl\<rparr> else v)"

definition SetCustomRateLimit :: "string \<Rightarrow> 64 word \<Rightarrow> Duration \<Rightarrow> state \<Rightarrow> state" where
  "SetCustomRateLimit sfx reqs rst w =
     (case find_rule (ruleAt w) sfx (customRateLimits w) of
        Some v \<Rightarrow>
          (let w1 = w\<lparr>ruleAt := (ruleAt w)
                        (v := (ruleAt w v)\<lparr>requests := reqs, customRateLimit.reset := rst\<rparr>)\<rparr>
           in range_buckets (attach (suffix (ruleAt w1 v)) v) w1)
      | None \<Rightarrow>
          (let rl = nextRule w;
               w1 = w\<lparr>ruleAt := (ruleAt w)
                        (rl := \<lparr>suffix = sfx, requests = reqs, reset = rst\<rparr>),
                      nextRule := Suc rl,
                      customRateLimits := customRateLimits w @ [rl]\<rparr>
           in range_buckets (attach (suffix (ruleAt w1 rl)) rl) w1))"

text \<open>The index of the first rule of the slice with the given suffix, counted from \<open>i\<close>.\<close>

fun find_index :: "(rule_ptr \<Rightarrow> customRateLimit) \<Rightarrow> string \<Rightarrow> nat \<Rightarrow> rule_ptr list \<Rightarrow> nat option" where
  "find_index h sfx i [] = None"
| "find_index h sfx i (v # vs) =
     (if suffix (h v) = sfx then Some i else find_index h sfx (Suc i) vs)"

definition detach :: "(rule_ptr \<Rightarrow> customRateLimit) \<Rightarrow> string \<Rightarrow> Bucket \<Rightarrow> Bucket" where
  "detach h sfx b =
     (case customRateLimit b of
        None \<Rightarrow> b
      | Some rl \<Rightarrow> if suffix (h rl) = sfx then b\<lparr>customRateLimit := None\<rparr> else b)"

definition RemoveCustomRateLimit :: "string \<Rightarrow> state \<Rightarrow> state \<times> error option" where
  "RemoveCustomRateLimit sfx w =
     (case find_index (ruleAt w) sfx 0 (customRateLimits w) of
        None \<Rightarrow> (w, Some ErrNotFound)
      | Some i \<Rightarrow>
          (let w1 = w\<lparr>customRateLimits :=
                        take i (customRateLimits w) @ drop (Suc i) (customRateLimits w)\<rparr>
           in (range_buckets (detach (ruleAt w1) sfx) w1, None)))"

subsection \<open>getBucket and LockBucket\<close>

text \<open>The first rule of the slice whose suffix ends the key.\<close>

fun match_rule :: "(rule_ptr \<Rightarrow> customRateLimit) \<Rightarrow> string \<Rightarrow> rule_ptr list \<Rightarrow> rule_ptr option" where
  "match_rule h key [] = None"
| "match_rule h key (rl # rls) =
     (if HasSuffix key (suffix (h rl)) then Some rl else match_rule h key rls)"

definition getBucket :: "string \<Rightarrow> state \<Rightarrow> bucket_ptr \<times> state" where
  "getBucket key w =
     (case map_of (buckets w) key of
        Some bucket \<Rightarrow> (bucket, w)
      | None \<Rightarrow>
          (let b = nextBucket w;
               new = \<lparr>locked = False, Key = key, remaining = 1, limit = 0, reset = zeroTime,
                      lastReset = zeroTime,
                      customRateLimit = match_rule (ruleAt w) key (customRateLimits w)\<rparr>
           in (b, w\<lparr>bucketAt := (bucketAt w)(b := new),
                    nextBucket := Suc b,
                    buckets := buckets w @ [(key, b)]\<rparr>)))"

text \<open>
  \<^verbatim>\<open>time.Sleep(d)\<close> returns at once for \<open>d \<le> 0\<close> and after \<open>d\<close> otherwise (Go promises at
  least \<open>d\<close>; the model sleeps \<open>d\<close>).
\<close>

definition Sleep :: "Duration \<Rightarrow> state \<Rightarrow> state" where
  "Sleep d w = (if 0 < sint d then w\<lparr>now := now w + sint d\<rparr> else w)"

text \<open>The two waits of \<^verbatim>\<open>LockBucket\<close>, on the bucket's reset and on the global instant.\<close>

definition wait_reset :: "bucket_ptr \<Rightarrow> state \<Rightarrow> state" where
  "wait_reset b w =
     (if sint (remaining (bucketAt w b)) < 1 \<and> Time_After (Bucket.reset (bucketAt w b)) (now w)
      then Sleep (Time_Sub (Bucket.reset (bucketAt w b)) (now w)) w
      else w)"

definition wait_global :: "state \<Rightarrow> state" where
  "wait_global w =
     (let sleepTo = Unix 0 (global w)
      in if Time_Before (now w) sleepTo then Sleep (Time_Sub sleepTo (now w)) w else w)"

text \<open>
  \<^verbatim>\<open>LockBucket\<close>. \<^verbatim>\<open>b.Lock()\<close> waits while another caller holds the slot: that call has not
  returned, which is \<open>None\<close>; it goes on from the state in which the slot is free.
\<close>

definition LockBucket :: "string \<Rightarrow> state \<Rightarrow> (bucket_ptr \<times> state) option" where
  "LockBucket bucketID w =
     (let (b, w1) = getBucket bucketID w
      in if locked (bucketAt w1 b) then None
         else
           (let w2 = update_bucket b (\<lambda>v. v\<lparr>locked := True\<rparr>) w1;
                w3 = wait_reset b w2;
                w4 = wait_global w3
            in Some (b, update_bucket b (\<lambda>v. v\<lparr>remaining := remaining v - 1\<rparr>) w4)))"

subsection \<open>Release\<close>

text \<open>
  \<^verbatim>\<open>b.Unlock()\<close>: giving back a slot that is not held is a fatal error of the Go runtime,
  \<open>None\<close> here.
\<close>

definition Unlock :: "bucket_ptr \<Rightarrow> state \<Rightarrow> state option" where
  "Unlock b w =
     (if locked (bucketAt w b) then Some (update_bucket b (\<lambda>v. v\<lparr>locked := False\<rparr>) w)
      else None)"

text \<open>The branch of a bucket with a custom rule \<open>rl\<close> (lines 186 to 193).\<close>

definition Release_custom :: "rule_ptr \<Rightarrow> bucket_ptr \<Rightarrow> state \<Rightarrow> state" where
  "Release_custom rl b w =
     (let w1 =
        (if sint (customRateLimit.reset (ruleAt w rl))
              \<le> sint (Time_Sub (now w) (lastReset (bucketAt w b)))
         then update_bucket b
                (\<lambda>v. v\<lparr>remaining := requests (ruleAt w rl) - 1, lastReset := now w\<rparr>) w
         else w)
      in if sint (remaining (bucketAt w1 b)) < 1
         then update_bucket b
                (\<lambda>v. v\<lparr>Bucket.reset := Time_Add (now w1) (customRateLimit.reset (ruleAt w1 rl))\<rparr>) w1
         else w1)"

text \<open>
  The update of the reset instants from \<^verbatim>\<open>Retry-After\<close>, \<^verbatim>\<open>X-RateLimit-Global\<close>,
  \<^verbatim>\<open>X-RateLimit-Reset\<close> and \<^verbatim>\<open>Date\<close> (lines 211 to 243). \<^verbatim>\<open>http.ParseTime\<close> is the
  parameter \<open>pt\<close>.
\<close>

definition Release_reset ::
  "(string \<Rightarrow> error + Time) \<Rightarrow> bucket_ptr \<Rightarrow> Header \<Rightarrow> state \<Rightarrow> error + state" where
  "Release_reset pt b h w =
     (let rst = Get h ''X-RateLimit-Reset'';
          glob = Get h ''X-RateLimit-Global'';
          retryAfter = Get h ''Retry-After''
      in if retryAfter \<noteq> [] then
           (case ParseInt retryAfter 64 of
              Inl err \<Rightarrow> Inl err
            | Inr parsedAfter \<Rightarrow>
                (let resetAt = Time_Add (now w) (parsedAfter * Millisecond)
                 in if glob \<noteq> [] then Inr (w\<lparr>global := UnixNano resetAt\<rparr>)
                    else Inr (update_bucket b (\<lambda>v. v\<lparr>Bucket.reset := resetAt\<rparr>) w)))
         else if rst \<noteq> [] then
           (case pt (Get h ''Date'') of
              Inl err \<Rightarrow> Inl err
            | Inr discordTime \<Rightarrow>
                (case ParseInt rst 64 of
                   Inl err \<Rightarrow> Inl err
                 | Inr unix \<Rightarrow>
                     (let delta = Time_Sub (Unix unix 0) discordTime + Millisecond * 250
                      in Inr (update_bucket b
                                (\<lambda>v. v\<lparr>Bucket.reset := Time_Add (now w) delta\<rparr>) w))))
         else Inr w)"

text \<open>The update of \<open>remaining\<close> from \<^verbatim>\<open>X-RateLimit-Remaining\<close> (lines 246 to 254).\<close>

definition Release_remaining :: "bucket_ptr \<Rightarrow> Header \<Rightarrow> state \<Rightarrow> state \<times> error option" where
  "Release_remaining b h w =
     (let rem = Get h ''X-RateLimit-Remaining''
      in if rem \<noteq> [] then
           (case ParseInt rem 32 of
              Inl err \<Rightarrow> (w, Some err)
            | Inr parsedRemaining \<Rightarrow>
                (update_bucket b (\<lambda>v. v\<lparr>remaining := parsedRemaining\<rparr>) w, None))
         else (w, None))"

definition Release_body ::
  "(string \<Rightarrow> error + Time) \<Rightarrow> bucket_ptr \<Rightarrow> Header option \<Rightarrow> state \<Rightarrow> state \<times> error option" where
  "Release_body pt b headers w =
     (case customRateLimit (bucketAt w b) of
        Some rl \<Rightarrow> (Release_custom rl b w, None)
      | None \<Rightarrow>
          (case headers of
             None \<Rightarrow> (w, None)
           | Some h \<Rightarrow>
               (case Release_reset pt b h w of
                  Inl err \<Rightarrow> (w, Some err)
                | Inr w1 \<Rightarrow> Release_remaining b h w1)))"

text \<open>\<^verbatim>\<open>Release\<close>: the body, then the deferred \<^verbatim>\<open>b.Unlock()\<close> on every path.\<close>

definition Release ::
  "(string \<Rightarrow> error + Time) \<Rightarrow> bucket_ptr \<Rightarrow> Header option \<Rightarrow> state
     \<Rightarrow> (state \<times> error option) option" where
  "Release pt b headers w =
     (let (w1, err) = Release_body pt b headers w
      in case Unlock b w1 of None \<Rightarrow> None | Some w2 \<Rightarrow> Some (w2, err))"

subsection \<open>An invariant of the clock\<close>

text \<open>
  The clock stands after the Unix epoch and no bucket's \<open>reset\<close> lies further ahead of it than
  the largest \<^verbatim>\<open>Duration\<close>. The constructor establishes this and every operation keeps it,
  as does the passing of time.
\<close>

definition timely :: "state \<Rightarrow> bool" where
  "timely w =
     (0 \<le> now w \<and> (\<forall>a. Bucket.reset (bucketAt w a) \<le> now w + 9223372036854775807))"

subsection \<open>Example data\<close>

text \<open>
  A state with one bucket, checked out, and no rule; the clock stands at 1600000000 seconds
  after the epoch.
\<close>

definition held_bucket :: Bucket where
  "held_bucket =
     \<lparr>locked = True, Key = ''/channels/1/messages'', remaining = 0, limit = 0,
      reset = zeroTime, lastReset = zeroTime, customRateLimit = None\<rparr>"

definition one_bucket :: state where
  "one_bucket =
     (NewRatelimiter 1600000000000000000)
       \<lparr>buckets := [(''/channels/1/messages'', 0)],
        bucketAt := (bucketAt (NewRatelimiter 1600000000000000000))(0 := held_bucket),
        nextBucket := 1\<rparr>"

text \<open>A stand-in for \<^verbatim>\<open>http.ParseTime\<close> that knows one date, 1600000000 seconds after the epoch.\<close>

definition parse_one_date :: "string \<Rightarrow> error + Time" where
  "parse_one_date s =
     (if s = ''Sun, 13 Sep 2020 12:26:40 GMT'' then Inr 1600000000000000000
      else Inl ErrParseTime)"

text \<open>The same state with the bucket attached to a rule of 5 requests per second.\<close>

definition ruled_bucket :: Bucket where
  "ruled_bucket = held_bucket\<lparr>customRateLimit := Some 0\<rparr>"

definition one_rule :: state where
  "one_rule =
     one_bucket
       \<lparr>customRateLimits := [0],
        bucketAt := (bucketAt one_bucket)(0 := ruled_bucket),
        ruleAt := (ruleAt one_bucket)
          (0 := \<lparr>suffix = ''/messages'', requests = 5, reset = 1000000000\<rparr>),
        nextRule := 1\<rparr>"

text \<open>
  A state whose only bucket is free and used up until two seconds from now, with the global
  instant three seconds from now.
\<close>

definition exhausted_bucket :: Bucket where
  "exhausted_bucket = held_bucket\<lparr>locked := False, Bucket.reset := 1600000002000000000\<rparr>"

definition throttled :: state where
  "throttled =
     one_bucket
       \<lparr>global := 1600000003000000000,
        bucketAt := (bucketAt one_bucket)(0 := exhausted_bucket)\<rparr>"

text \<open>The state \<open>one_rule\<close> with a second rule that ends the same keys.\<close>

definition two_rules :: state where
  "two_rules =
     one_rule
       \<lparr>customRateLimits := [0, 1],
        ruleAt := (ruleAt one_rule)
          (1 := \<lparr>suffix = ''messages'', requests = 2, reset = 5000000000\<rparr>),
        nextRule := 2\<rparr>"

text \<open>
  The state \<open>two_rules\<close> with a second bucket, free, whose key only the second rule ends.
\<close>

definition two_buckets :: state where
  "two_buckets =
     two_rules
       \<lparr>buckets := [(''/channels/1/messages'', 0), (''/pinmessages'', 1)],
        bucketAt := (bucketAt two_rules)
          (1 := \<lparr>locked = False, Key = ''/pinmessages'', remaining = 1, limit = 0,
                 reset = zeroTime, lastReset = zeroTime, customRateLimit = Some 1\<rparr>),
        nextBucket := 2\<rparr>"

text \<open>
  A fresh limiter with one rule of 5 requests per second for the keys that end in
  \<^verbatim>\<open>/messages\<close>, and no bucket yet.
\<close>

definition rule_only :: state where
  "rule_only =
     (NewRatelimiter 1600000000000000000)
       \<lparr>customRateLimits := [0],
        ruleAt := (ruleAt (NewRatelimiter 1600000000000000000))
          (0 := \<lparr>suffix = ''/messages'', requests = 5, reset = 1000000000\<rparr>),
        nextRule := 1\<rparr>"

section \<open>Properties\<close>

subsection \<open>Release with no headers\<close>

lemma Unlock_locked:
  "locked (bucketAt w b) \<Longrightarrow>
     Unlock b w = Some (update_bucket b (\<lambda>v. v\<lparr>locked := False\<rparr>) w)"
  by (simp add: Unlock_def)

text \<open>
  C6. On a checked-out bucket with no custom rule, \<^verbatim>\<open>Release(nil)\<close> returns no error and
  the state it leaves is the state before with the slot of this bucket given back: the
  bucket's \<open>remaining\<close>, \<open>reset\<close> and \<open>lastReset\<close>, the other buckets, the global instant, the
  rules and the clock are as they were.
\<close>

theorem Release_nil_only_unlocks:
  assumes "customRateLimit (bucketAt w b) = None"
    and "locked (bucketAt w b)"
  shows "Release pt b None w = Some (update_bucket b (\<lambda>v. v\<lparr>locked := False\<rparr>) w, None)
    \<and> (\<forall>w'. Release pt b None w = Some (w', None) \<longrightarrow>
          remaining (bucketAt w' b) = remaining (bucketAt w b)
        \<and> Bucket.reset (bucketAt w' b) = Bucket.reset (bucketAt w b)
        \<and> lastReset (bucketAt w' b) = lastReset (bucketAt w b)
        \<and> \<not> locked (bucketAt w' b))"
  using assms by (auto simp: Release_def Release_body_def Unlock_def update_bucket_def)

theorem Release_nil_only_unlocks_witness:
  "Release parse_one_date 0 None one_bucket
     = Some (update_bucket 0 (\<lambda>v. v\<lparr>locked := False\<rparr>) one_bucket, None)
   \<and> remaining (bucketAt (update_bucket 0 (\<lambda>v. v\<lparr>locked := False\<rparr>) one_bucket) 0) = 0
   \<and> \<not> locked (bucketAt (update_bucket 0 (\<lambda>v. v\<lparr>locked := False\<rparr>) one_bucket) 0)"
proof -
  have no_rule: "customRateLimit (bucketAt one_bucket 0) = None"
    by (simp add: one_bucket_def held_bucket_def)
  have held: "locked (bucketAt one_bucket 0)"
    by (simp add: one_bucket_def held_bucket_def)
  from Release_nil_only_unlocks [OF no_rule held, of parse_one_date]
  show ?thesis
    by (simp add: update_bucket_def one_bucket_def held_bucket_def)
qed

subsection \<open>Arithmetic of durations\<close>

lemma sint_int64:
  assumes "- 9223372036854775808 \<le> x" and "x \<le> 9223372036854775807"
  shows "sint (word_of_int x :: 64 word) = x"
proof -
  have "signed_take_bit (63::nat) x = x"
    using assms by (simp add: signed_take_bit_int_eq_self_iff)
  then show ?thesis
    unfolding sint_sbintrunc' by simp
qed

lemma sint_bounds64:
  "- 9223372036854775808 \<le> sint (d :: 64 word)" "sint (d :: 64 word) \<le> 9223372036854775807"
  using sint_ge [of d] sint_lt [of d] by simp_all

text \<open>
  \<^verbatim>\<open>time.Unix(0, g)\<close> is the instant \<open>g\<close> nanoseconds from the epoch, for every \<^verbatim>\<open>int64\<close>;
  \<^verbatim>\<open>time.Unix(unix, 0)\<close> is \<open>unix\<close> seconds from the epoch until the stored seconds wrap.
\<close>

lemma Unix_0: "Unix 0 g = sint g"
proof -
  define x where "x = sint g"
  define n where "n = (if x < 0 \<or> 1000000000 \<le> x
               then sgn x * (\<bar>x\<bar> div 1000000000) else 0)"
  define c :: int where "c = (if x - n * 1000000000 < 0 then 1 else 0)"
  have xb: "- 9223372036854775808 \<le> x" "x \<le> 9223372036854775807"
    unfolding x_def by (rule sint_bounds64)+
  have q: "0 \<le> \<bar>x\<bar> div 1000000000" "\<bar>x\<bar> div 1000000000 \<le> 9223372036"
  proof -
    show "0 \<le> \<bar>x\<bar> div 1000000000" by simp
    have "\<bar>x\<bar> \<le> 9223372036854775808" using xb by simp
    then have "\<bar>x\<bar> div 1000000000 \<le> 9223372036854775808 div 1000000000"
      by (rule zdiv_mono1) simp
    then show "\<bar>x\<bar> div 1000000000 \<le> 9223372036" by simp
  qed
  have nb: "- 9223372036 \<le> n" "n \<le> 9223372036"
    using q by (auto simp: n_def sgn_if)
  have cb: "0 \<le> c" "c \<le> 1" by (simp_all add: c_def)
  have "sint (0 + word_of_int n - (if x - n * 1000000000 < 0 then 1 else 0) + 62135596800 :: 64 word)
      = sint (word_of_int (n - c + 62135596800) :: 64 word)"
    by (simp add: c_def)
  also have "\<dots> = n - c + 62135596800"
    using nb cb by (intro sint_int64) simp_all
  finally have s: "sint (0 + word_of_int n - (if x - n * 1000000000 < 0 then 1 else 0) + 62135596800 :: 64 word)
      = n - c + 62135596800" .
  show ?thesis
    unfolding Unix_def Let_def x_def [symmetric] n_def [symmetric] s
    by (simp add: c_def algebra_simps)
qed

lemma Unix_seconds_wrap:
  "Unix unix 0 = (sint (unix + 62135596800) - 62135596800) * 1000000000"
  by (simp add: Unix_def)

lemma Unix_seconds:
  assumes "sint unix \<le> 9223371974719179007"
  shows "Unix unix 0 = sint unix * 1000000000"
proof -
  have "sint (unix + 62135596800) = signed_take_bit (63::nat) (sint unix + 62135596800)"
    by (simp add: sint_word_ariths)
  also have "\<dots> = sint unix + 62135596800"
    using assms sint_bounds64 [of unix] by (simp add: signed_take_bit_int_eq_self_iff)
  finally show ?thesis by (simp add: Unix_seconds_wrap)
qed

lemma Time_Sub_sint:
  "sint (Time_Sub t u) = max (- 9223372036854775808) (min 9223372036854775807 (t - u))"
proof -
  consider "9223372036854775807 < t - u" | "t - u < - 9223372036854775808"
    | "- 9223372036854775808 \<le> t - u" "t - u \<le> 9223372036854775807"
    by linarith
  then show ?thesis
  proof cases
    case 1
    then show ?thesis by (simp add: Time_Sub_def maxDuration_def)
  next
    case 2
    then show ?thesis by (simp add: Time_Sub_def minDuration_def)
  next
    case 3
    then have "sint (word_of_int (t - u) :: 64 word) = t - u"
      by (rule sint_int64)
    with 3 show ?thesis unfolding Time_Sub_def by auto
  qed
qed

lemma Time_Sub_ge:
  assumes "u \<le> t"
  shows "sint (d :: Duration) \<le> sint (Time_Sub t u) \<longleftrightarrow> sint d \<le> t - u"
  using assms sint_bounds64 [of d] by (auto simp: Time_Sub_sint)

text \<open>Go's \<^verbatim>\<open>x - 1\<close> on an \<^verbatim>\<open>int\<close> is one less, but for the least \<^verbatim>\<open>int\<close>.\<close>

lemma sint_minus_one:
  assumes "sint (x :: 64 word) \<noteq> - 9223372036854775808"
  shows "sint (x - 1) = sint x - 1"
proof -
  have "sint (x - 1) = signed_take_bit (63::nat) (sint x - 1)"
    by (simp add: sint_word_ariths)
  also have "\<dots> = sint x - 1"
    using assms sint_bounds64 [of x] by (simp add: signed_take_bit_int_eq_self_iff)
  finally show ?thesis .
qed

text \<open>The delay of line 241 is the exact sum where that fits a \<^verbatim>\<open>Duration\<close>.\<close>

lemma delta_exact:
  assumes "- 9223372036854775808 \<le> t - d" and "t - d \<le> 9223372036604775807"
  shows "sint (Time_Sub t d + Millisecond * 250) = t - d + 250000000"
proof -
  have sub: "sint (Time_Sub t d) = t - d"
    using assms by (simp add: Time_Sub_sint)
  have "sint (Time_Sub t d + Millisecond * 250)
      = signed_take_bit (63::nat) (sint (Time_Sub t d) + 250000000)"
    by (simp add: sint_word_ariths Millisecond_def)
  also have "\<dots> = t - d + 250000000"
    using assms by (simp add: sub signed_take_bit_int_eq_self_iff)
  finally show ?thesis .
qed

subsection \<open>Release on a bucket with a custom rule\<close>

text \<open>
  C3. On a checked-out bucket with an attached rule, \<^verbatim>\<open>Release\<close> returns no error whatever
  the headers are (they occur nowhere in the result), and changes nothing but this bucket:
  when \<^verbatim>\<open>now.Sub(lastReset) >= rule.reset\<close>, \<open>remaining\<close> becomes \<open>rule.requests - 1\<close> and
  \<open>lastReset\<close> becomes \<open>now\<close>; when \<open>remaining\<close> is below 1 after that, \<open>reset\<close> becomes
  \<open>now + rule.reset\<close>; a field whose condition does not hold keeps its value, and the slot is
  given back. \<^verbatim>\<open>Sub\<close> saturates, which changes nothing in the comparison once
  \<open>lastReset\<close> is not after \<open>now\<close>.
\<close>

theorem Release_custom_rule:
  assumes "customRateLimit (bucketAt w b) = Some rl"
    and "locked (bucketAt w b)"
  shows "\<exists>w'. Release pt b headers w = Some (w', None)
    \<and> w' = w\<lparr>bucketAt := (bucketAt w)(b := bucketAt w' b)\<rparr>
    \<and> (let v = bucketAt w b;
          rule = ruleAt w rl;
          elapsed = (sint (customRateLimit.reset rule) \<le> sint (Time_Sub (now w) (lastReset v)));
          remaining' = (if elapsed then requests rule - 1 else remaining v);
          lastReset' = (if elapsed then now w else lastReset v);
          reset' = (if sint remaining' < 1 then Time_Add (now w) (customRateLimit.reset rule)
                    else Bucket.reset v)
      in bucketAt w' b = v\<lparr>locked := False, remaining := remaining', Bucket.reset := reset',
                         lastReset := lastReset'\<rparr>
         \<and> (lastReset v \<le> now w \<longrightarrow>
              elapsed = (sint (customRateLimit.reset rule) \<le> now w - lastReset v))
         \<and> (sint (requests rule) \<noteq> - 9223372036854775808 \<longrightarrow>
              sint (requests rule - 1) = sint (requests rule) - 1)
         \<and> Time_Add (now w) (customRateLimit.reset rule)
              = now w + sint (customRateLimit.reset rule))"
  using assms
  by (simp add: Release_def Release_body_def Release_custom_def Unlock_def update_bucket_def
      Let_def Time_Sub_ge sint_minus_one Time_Add_def)

theorem Release_custom_rule_witness:
  "(case Release parse_one_date 0 (Some (Map.empty(''X-Ratelimit-Remaining'' \<mapsto> [''9'']))) one_rule of
      None \<Rightarrow> False
    | Some (w', err) \<Rightarrow>
        err = None \<and> remaining (bucketAt w' 0) = 4 \<and> lastReset (bucketAt w' 0) = 1600000000000000000
        \<and> Bucket.reset (bucketAt w' 0) = zeroTime \<and> \<not> locked (bucketAt w' 0))"
proof -
  have rule: "customRateLimit (bucketAt one_rule 0) = Some 0"
    by (simp add: one_rule_def ruled_bucket_def)
  have held: "locked (bucketAt one_rule 0)"
    by (simp add: one_rule_def ruled_bucket_def held_bucket_def)
  have sub: "Time_Sub 1600000000000000000 zeroTime = maxDuration"
    by (simp add: Time_Sub_def zeroTime_def)
  from Release_custom_rule [OF rule held, of parse_one_date
      "Some (Map.empty(''X-Ratelimit-Remaining'' \<mapsto> [''9'']))"]
  show ?thesis
    by (auto simp: Let_def one_rule_def ruled_bucket_def held_bucket_def one_bucket_def
        NewRatelimiter_def sub maxDuration_def)
qed


subsection \<open>Release on a bucket without a rule: the reset instants\<close>

lemma canonical_keys:
  "CanonicalMIMEHeaderKey ''X-RateLimit-Remaining'' = ''X-Ratelimit-Remaining''"
  "CanonicalMIMEHeaderKey ''X-RateLimit-Reset'' = ''X-Ratelimit-Reset''"
  "CanonicalMIMEHeaderKey ''X-RateLimit-Global'' = ''X-Ratelimit-Global''"
  "CanonicalMIMEHeaderKey ''Retry-After'' = ''Retry-After''"
  "CanonicalMIMEHeaderKey ''Date'' = ''Date''"
  by (simp_all add: CanonicalMIMEHeaderKey_def upper_def lower_def char_of_def bit_Suc_0_iff)

lemma milliseconds_exact:
  assumes "- 9223372036854 \<le> sint (n :: 64 word)" and "sint n \<le> 9223372036854"
  shows "sint (n * Millisecond) = sint n * 1000000"
proof -
  have "sint (n * Millisecond) = signed_take_bit (63::nat) (sint n * 1000000)"
    by (simp add: sint_word_ariths Millisecond_def)
  also have "\<dots> = sint n * 1000000"
    using assms by (simp add: signed_take_bit_int_eq_self_iff)
  finally show ?thesis .
qed

lemma Unix_UnixNano:
  assumes "- 9223372036854775808 \<le> t" and "t \<le> 9223372036854775807"
  shows "Unix 0 (UnixNano t) = t"
  using sint_int64 [OF assms] by (simp add: Unix_0 UnixNano_def)

lemma Release_no_rule:
  assumes "customRateLimit (bucketAt w b) = None" and "locked (bucketAt w b)"
  shows "Release pt b (Some h) w =
     (case Release_reset pt b h w of
        Inl err \<Rightarrow> Some (update_bucket b (\<lambda>v. v\<lparr>locked := False\<rparr>) w, Some err)
      | Inr w1 \<Rightarrow>
          Some (update_bucket b (\<lambda>v. v\<lparr>locked := False\<rparr>) (fst (Release_remaining b h w1)),
                snd (Release_remaining b h w1)))"
proof (cases "Release_reset pt b h w")
  case (Inl err)
  then show ?thesis
    using assms by (simp add: Release_def Release_body_def Unlock_def)
next
  case (Inr w1)
  have "locked (bucketAt w1 b)"
    using Inr assms(2)
    by (auto simp: Release_reset_def Let_def update_bucket_def split: if_splits sum.splits)
  then have "locked (bucketAt (fst (Release_remaining b h w1)) b)"
    by (auto simp: Release_remaining_def Let_def update_bucket_def split: sum.splits)
  then show ?thesis
    using Inr assms
    by (cases "Release_remaining b h w1") (auto simp: Release_def Release_body_def Unlock_def)
qed

text \<open>
  C2. On a checked-out bucket with no rule and headers that are not \<^verbatim>\<open>nil\<close>: when
  \<^verbatim>\<open>Retry-After\<close> is present and parses to \<open>n\<close>, the instant \<open>resetAt = now + n\<close> milliseconds
  is stored in the shared global cell (as Unix nanoseconds) if \<^verbatim>\<open>X-RateLimit-Global\<close> is
  present, leaving the bucket's \<open>reset\<close> alone, and in the bucket's \<open>reset\<close> otherwise, leaving
  the global cell alone. When \<^verbatim>\<open>Retry-After\<close> is absent, \<^verbatim>\<open>X-RateLimit-Reset\<close> is present
  and parses to \<open>unix\<close>, and \<^verbatim>\<open>Date\<close> parses to \<open>d\<close>, the bucket's \<open>reset\<close> becomes
  \<open>now + (Unix(unix, 0) - d) + 250 ms\<close>. In every other case neither instant changes, so
  \<open>reset\<close> is computed from \<^verbatim>\<open>Date\<close> only in the second case. The sums and products are
  those of \<^verbatim>\<open>time.Duration\<close>: \<open>n\<close> milliseconds is \<open>n * 1000000\<close> nanoseconds exactly for
  \<open>n\<close> up to 9223372036854 in magnitude (about 292 years). \<open>Unix(unix, 0)\<close> is
  \<^verbatim>\<open>time.Unix\<close>, \<open>unix\<close> seconds from the epoch for \<open>unix\<close> up to 9223371974719179007; the
  difference saturates as \<^verbatim>\<open>Sub\<close> does and is exact where it fits.
\<close>

theorem Release_reset_instants:
  assumes "customRateLimit (bucketAt w b) = None"
    and "locked (bucketAt w b)"
  shows "\<exists>w' err. Release pt b (Some h) w = Some (w', err)
    \<and> (\<forall>n. Get h ''Retry-After'' \<noteq> [] \<and> ParseInt (Get h ''Retry-After'') 64 = Inr n \<longrightarrow>
          (Get h ''X-RateLimit-Global'' \<noteq> [] \<longrightarrow>
             global w' = UnixNano (Time_Add (now w) (n * Millisecond))
             \<and> Bucket.reset (bucketAt w' b) = Bucket.reset (bucketAt w b))
        \<and> (Get h ''X-RateLimit-Global'' = [] \<longrightarrow>
             Bucket.reset (bucketAt w' b) = Time_Add (now w) (n * Millisecond)
             \<and> global w' = global w)
        \<and> (- 9223372036854 \<le> sint n \<and> sint n \<le> 9223372036854 \<longrightarrow>
             Time_Add (now w) (n * Millisecond) = now w + sint n * 1000000)
        \<and> (- 9223372036854775808 \<le> Time_Add (now w) (n * Millisecond)
             \<and> Time_Add (now w) (n * Millisecond) \<le> 9223372036854775807 \<longrightarrow>
             Unix 0 (UnixNano (Time_Add (now w) (n * Millisecond)))
               = Time_Add (now w) (n * Millisecond)))
    \<and> (\<forall>d unix. Get h ''Retry-After'' = [] \<and> Get h ''X-RateLimit-Reset'' \<noteq> []
          \<and> pt (Get h ''Date'') = Inr d \<and> ParseInt (Get h ''X-RateLimit-Reset'') 64 = Inr unix \<longrightarrow>
          Bucket.reset (bucketAt w' b)
            = Time_Add (now w) (Time_Sub (Unix unix 0) d + Millisecond * 250)
          \<and> global w' = global w
          \<and> (- 9223372036854775808 \<le> Unix unix 0 - d \<and> Unix unix 0 - d \<le> 9223372036604775807 \<longrightarrow>
               Time_Add (now w) (Time_Sub (Unix unix 0) d + Millisecond * 250)
                 = now w + (Unix unix 0 - d) + 250000000)
          \<and> (sint unix \<le> 9223371974719179007 \<longrightarrow> Unix unix 0 = sint unix * 1000000000))
    \<and> ((\<exists>e. Get h ''Retry-After'' \<noteq> [] \<and> ParseInt (Get h ''Retry-After'') 64 = Inl e)
        \<or> (Get h ''Retry-After'' = [] \<and>
             (Get h ''X-RateLimit-Reset'' = [] \<or> (\<exists>e. pt (Get h ''Date'') = Inl e)
              \<or> (\<exists>e. ParseInt (Get h ''X-RateLimit-Reset'') 64 = Inl e))) \<longrightarrow>
          Bucket.reset (bucketAt w' b) = Bucket.reset (bucketAt w b) \<and> global w' = global w)"
proof (cases "Release_reset pt b h w")
  case (Inl err)
  then show ?thesis
    unfolding Release_no_rule [OF assms]
    by (auto simp: Release_reset_def Let_def update_bucket_def Time_Add_def milliseconds_exact
        delta_exact Unix_UnixNano Unix_seconds
        split: if_splits sum.splits)
next
  case (Inr w1)
  have rem: "Bucket.reset (bucketAt (fst (Release_remaining b h w1)) b) = Bucket.reset (bucketAt w1 b)"
    "global (fst (Release_remaining b h w1)) = global w1"
    by (auto simp: Release_remaining_def Let_def update_bucket_def split: sum.splits)
  show ?thesis
    unfolding Release_no_rule [OF assms]
    using Inr
    by (auto simp: rem Release_reset_def Let_def update_bucket_def Time_Add_def milliseconds_exact
        delta_exact Unix_UnixNano Unix_seconds
        split: if_splits sum.splits)
qed


lemma Get_simps:
  "Get h ''X-RateLimit-Remaining'' = (case h ''X-Ratelimit-Remaining'' of None \<Rightarrow> [] | Some [] \<Rightarrow> [] | Some (v # _) \<Rightarrow> v)"
  "Get h ''X-RateLimit-Reset'' = (case h ''X-Ratelimit-Reset'' of None \<Rightarrow> [] | Some [] \<Rightarrow> [] | Some (v # _) \<Rightarrow> v)"
  "Get h ''X-RateLimit-Global'' = (case h ''X-Ratelimit-Global'' of None \<Rightarrow> [] | Some [] \<Rightarrow> [] | Some (v # _) \<Rightarrow> v)"
  "Get h ''Retry-After'' = (case h ''Retry-After'' of None \<Rightarrow> [] | Some [] \<Rightarrow> [] | Some (v # _) \<Rightarrow> v)"
  "Get h ''Date'' = (case h ''Date'' of None \<Rightarrow> [] | Some [] \<Rightarrow> [] | Some (v # _) \<Rightarrow> v)"
  by (simp_all only: Get_def canonical_keys)

lemma one_bucket_simps:
  "customRateLimit (bucketAt one_bucket 0) = None"
  "locked (bucketAt one_bucket 0)"
  "remaining (bucketAt one_bucket 0) = 0"
  "Bucket.reset (bucketAt one_bucket 0) = zeroTime"
  "now one_bucket = 1600000000000000000"
  "global one_bucket = 0"
  by (simp_all add: one_bucket_def held_bucket_def NewRatelimiter_def)

lemma ParseInt_examples:
  "ParseInt ''2000'' 64 = Inr 2000"
  "ParseInt ''1000'' 64 = Inr 1000"
  "ParseInt ''1600000005'' 64 = Inr 1600000005"
  "ParseInt ''5'' 32 = Inr 5"
  "ParseInt ''abc'' 64 = Inl ErrSyntax"
  "ParseInt ''many'' 32 = Inl ErrSyntax"
  by (simp_all add: ParseInt_def ParseUint_def digit_def)

theorem Release_reset_instants_witness:
  "(case Release parse_one_date 0 (Some [''Retry-After'' \<mapsto> [''2000'']]) one_bucket of
      None \<Rightarrow> False
    | Some (w', err) \<Rightarrow>
        Bucket.reset (bucketAt w' 0) = 1600000002000000000 \<and> global w' = 0)
   \<and> (case Release parse_one_date 0
        (Some [''Retry-After'' \<mapsto> [''1000''], ''X-Ratelimit-Global'' \<mapsto> [''true'']]) one_bucket of
      None \<Rightarrow> False
    | Some (w', err) \<Rightarrow>
        Bucket.reset (bucketAt w' 0) = zeroTime \<and> Unix 0 (global w') = 1600000001000000000)
   \<and> (case Release parse_one_date 0
        (Some [''X-Ratelimit-Reset'' \<mapsto> [''1600000005''],
               ''Date'' \<mapsto> [''Sun, 13 Sep 2020 12:26:40 GMT'']]) one_bucket of
      None \<Rightarrow> False
    | Some (w', err) \<Rightarrow>
        Bucket.reset (bucketAt w' 0) = 1600000005250000000 \<and> global w' = 0)"
proof -
  note ex = one_bucket_simps Get_simps ParseInt_examples Time_Add_def Millisecond_def
    UnixNano_def Unix_0 Unix_seconds_wrap Time_Sub_def parse_one_date_def
  have a: "case Release parse_one_date 0 (Some [''Retry-After'' \<mapsto> [''2000'']]) one_bucket of
      None \<Rightarrow> False
    | Some (w', err) \<Rightarrow>
        Bucket.reset (bucketAt w' 0) = 1600000002000000000 \<and> global w' = 0"
    using Release_reset_instants [of one_bucket 0 parse_one_date "[''Retry-After'' \<mapsto> [''2000'']]"]
    by (auto simp: ex)
  have b: "case Release parse_one_date 0
        (Some [''Retry-After'' \<mapsto> [''1000''], ''X-Ratelimit-Global'' \<mapsto> [''true'']]) one_bucket of
      None \<Rightarrow> False
    | Some (w', err) \<Rightarrow>
        Bucket.reset (bucketAt w' 0) = zeroTime \<and> Unix 0 (global w') = 1600000001000000000"
    using Release_reset_instants [of one_bucket 0 parse_one_date
        "[''Retry-After'' \<mapsto> [''1000''], ''X-Ratelimit-Global'' \<mapsto> [''true'']]"]
    by (auto simp: ex)
  have c: "case Release parse_one_date 0
        (Some [''X-Ratelimit-Reset'' \<mapsto> [''1600000005''],
               ''Date'' \<mapsto> [''Sun, 13 Sep 2020 12:26:40 GMT'']]) one_bucket of
      None \<Rightarrow> False
    | Some (w', err) \<Rightarrow>
        Bucket.reset (bucketAt w' 0) = 1600000005250000000 \<and> global w' = 0"
    using Release_reset_instants [of one_bucket 0 parse_one_date
        "[''X-Ratelimit-Reset'' \<mapsto> [''1600000005''],
               ''Date'' \<mapsto> [''Sun, 13 Sep 2020 12:26:40 GMT'']]"]
    by (auto simp: ex)
  from a b c show ?thesis by blast
qed

text \<open>
  Past that bound the stored seconds wrap: \<^verbatim>\<open>X-RateLimit-Reset: 9223371974719179008\<close>
  is an instant before year 1, \<^verbatim>\<open>Sub\<close> saturates at the smallest \<^verbatim>\<open>Duration\<close>, and the
  bucket's \<open>reset\<close> lands 292 years before now.
\<close>

lemma Release_reset_wrapped_epoch:
  "ParseInt ''9223371974719179008'' 64 = Inr 9223371974719179008
   \<and> Unix 9223371974719179008 0 = - 9223372098990372608000000000
   \<and> map_option (\<lambda>r. (Bucket.reset (bucketAt (fst r) 0), snd r))
        (Release parse_one_date 0
          (Some [''X-Ratelimit-Reset'' \<mapsto> [''9223371974719179008''],
                 ''Date'' \<mapsto> [''Sun, 13 Sep 2020 12:26:40 GMT'']]) one_bucket)
      = Some (- 7623372036604775808, None)"
proof -
  have p: "ParseInt ''9223371974719179008'' 64 = Inr 9223371974719179008"
    by (simp add: ParseInt_def ParseUint_def digit_def)
  have u: "Unix 9223371974719179008 0 = - 9223372098990372608000000000"
    by (simp add: Unix_seconds_wrap)
  have n: "customRateLimit (bucketAt one_bucket 0) = None" "locked (bucketAt one_bucket 0)"
    by (simp_all add: one_bucket_simps)
  show ?thesis
    unfolding Release_no_rule [OF n]
    by (simp add: p u Release_reset_def Release_remaining_def Get_simps parse_one_date_def
        one_bucket_simps Time_Sub_def minDuration_def Millisecond_def Time_Add_def
        update_bucket_def)
qed

subsection \<open>Release on a bucket without a rule: parse errors\<close>

lemma Release_reset_Inl_iff:
  "Release_reset pt b h w = Inl e \<longleftrightarrow>
     (Get h ''Retry-After'' \<noteq> [] \<and> ParseInt (Get h ''Retry-After'') 64 = Inl e)
   \<or> (Get h ''Retry-After'' = [] \<and> Get h ''X-RateLimit-Reset'' \<noteq> []
        \<and> pt (Get h ''Date'') = Inl e)
   \<or> (Get h ''Retry-After'' = [] \<and> Get h ''X-RateLimit-Reset'' \<noteq> []
        \<and> (\<exists>d. pt (Get h ''Date'') = Inr d)
        \<and> ParseInt (Get h ''X-RateLimit-Reset'') 64 = Inl e)"
  by (auto simp: Release_reset_def Let_def split: sum.splits)

lemma Get_drop_remaining:
  "Get (h(''X-Ratelimit-Remaining'' := None)) ''X-RateLimit-Reset'' = Get h ''X-RateLimit-Reset''"
  "Get (h(''X-Ratelimit-Remaining'' := None)) ''X-RateLimit-Global'' = Get h ''X-RateLimit-Global''"
  "Get (h(''X-Ratelimit-Remaining'' := None)) ''Retry-After'' = Get h ''Retry-After''"
  "Get (h(''X-Ratelimit-Remaining'' := None)) ''Date'' = Get h ''Date''"
  "Get (h(''X-Ratelimit-Remaining'' := None)) ''X-RateLimit-Remaining'' = []"
  by (simp_all add: Get_simps)

lemma Release_reset_drop_remaining:
  "Release_reset pt b (h(''X-Ratelimit-Remaining'' := None)) w = Release_reset pt b h w"
  unfolding Release_reset_def Get_drop_remaining ..

lemma Release_remaining_dropped:
  "Release_remaining b (h(''X-Ratelimit-Remaining'' := None)) w = (w, None)"
  by (simp add: Release_remaining_def Get_drop_remaining)

lemma Release_remaining_error:
  "Get h ''X-RateLimit-Remaining'' \<noteq> [] \<Longrightarrow> ParseInt (Get h ''X-RateLimit-Remaining'') 32 = Inl e \<Longrightarrow>
     Release_remaining b h w = (w, Some e)"
  by (simp add: Release_remaining_def)

lemma Release_remaining_snd:
  "snd (Release_remaining b h w) = Some e \<longleftrightarrow>
     Get h ''X-RateLimit-Remaining'' \<noteq> [] \<and> ParseInt (Get h ''X-RateLimit-Remaining'') 32 = Inl e"
  by (auto simp: Release_remaining_def Let_def split: sum.splits)

lemma Release_unlocks:
  assumes "customRateLimit (bucketAt w b) = None" and "locked (bucketAt w b)"
    and "Release pt b (Some h) w = Some (w', err)"
  shows "\<not> locked (bucketAt w' b)"
  using assms(3) unfolding Release_no_rule [OF assms(1,2)]
  by (auto simp: update_bucket_def split: sum.splits)

lemma Release_reset_Inr_iff:
  "(\<exists>w1. Release_reset pt b h w = Inr w1) \<longleftrightarrow>
     (Get h ''Retry-After'' \<noteq> [] \<longrightarrow> (\<exists>n. ParseInt (Get h ''Retry-After'') 64 = Inr n))
   \<and> (Get h ''Retry-After'' = [] \<and> Get h ''X-RateLimit-Reset'' \<noteq> [] \<longrightarrow>
         (\<exists>d. pt (Get h ''Date'') = Inr d)
         \<and> (\<exists>unix. ParseInt (Get h ''X-RateLimit-Reset'') 64 = Inr unix))"
  by (auto simp: Release_reset_def Let_def split: sum.splits)

text \<open>
  C4, as amended. On a checked-out bucket with no rule, \<^verbatim>\<open>Release\<close> with headers always
  returns and gives the slot back. It returns the error \<open>e\<close> exactly when \<open>e\<close> is the error of
  the first header it reads that does not parse: \<^verbatim>\<open>Retry-After\<close> when present; with
  \<^verbatim>\<open>Retry-After\<close> absent and \<^verbatim>\<open>X-RateLimit-Reset\<close> present, \<^verbatim>\<open>Date\<close> and then
  \<^verbatim>\<open>X-RateLimit-Reset\<close>; and, when none of these failed, \<^verbatim>\<open>X-RateLimit-Remaining\<close> when
  present (read as a 32-bit integer). A header that is not read raises no error, however
  malformed. After an error in \<^verbatim>\<open>Retry-After\<close>, \<^verbatim>\<open>Date\<close> or \<^verbatim>\<open>X-RateLimit-Reset\<close> the
  state is the state before with the slot given back. After an error in
  \<^verbatim>\<open>X-RateLimit-Remaining\<close> the state is the one \<^verbatim>\<open>Release\<close> leaves for the same headers
  without \<^verbatim>\<open>X-RateLimit-Remaining\<close>: the instant stored before keeps its new value, and
  \<open>remaining\<close> is as it was.
\<close>

theorem Release_parse_errors:
  assumes "customRateLimit (bucketAt w b) = None"
    and "locked (bucketAt w b)"
  shows "\<exists>w' err. Release pt b (Some h) w = Some (w', err) \<and> \<not> locked (bucketAt w' b)
    \<and> (\<forall>e. err = Some e \<longleftrightarrow>
          (Get h ''Retry-After'' \<noteq> [] \<and> ParseInt (Get h ''Retry-After'') 64 = Inl e)
        \<or> (Get h ''Retry-After'' = [] \<and> Get h ''X-RateLimit-Reset'' \<noteq> []
             \<and> pt (Get h ''Date'') = Inl e)
        \<or> (Get h ''Retry-After'' = [] \<and> Get h ''X-RateLimit-Reset'' \<noteq> []
             \<and> (\<exists>d. pt (Get h ''Date'') = Inr d)
             \<and> ParseInt (Get h ''X-RateLimit-Reset'') 64 = Inl e)
        \<or> ((Get h ''Retry-After'' \<noteq> [] \<longrightarrow> (\<exists>n. ParseInt (Get h ''Retry-After'') 64 = Inr n))
             \<and> (Get h ''Retry-After'' = [] \<and> Get h ''X-RateLimit-Reset'' \<noteq> [] \<longrightarrow>
                  (\<exists>d. pt (Get h ''Date'') = Inr d)
                  \<and> (\<exists>unix. ParseInt (Get h ''X-RateLimit-Reset'') 64 = Inr unix))
             \<and> Get h ''X-RateLimit-Remaining'' \<noteq> []
             \<and> ParseInt (Get h ''X-RateLimit-Remaining'') 32 = Inl e))
    \<and> (\<forall>e. (Get h ''Retry-After'' \<noteq> [] \<and> ParseInt (Get h ''Retry-After'') 64 = Inl e)
           \<or> (Get h ''Retry-After'' = [] \<and> Get h ''X-RateLimit-Reset'' \<noteq> []
                \<and> (pt (Get h ''Date'') = Inl e
                     \<or> ParseInt (Get h ''X-RateLimit-Reset'') 64 = Inl e)) \<longrightarrow>
          w' = update_bucket b (\<lambda>v. v\<lparr>locked := False\<rparr>) w)
    \<and> (\<forall>e. (Get h ''Retry-After'' \<noteq> [] \<longrightarrow> (\<exists>n. ParseInt (Get h ''Retry-After'') 64 = Inr n))
           \<and> (Get h ''Retry-After'' = [] \<and> Get h ''X-RateLimit-Reset'' \<noteq> [] \<longrightarrow>
                (\<exists>d. pt (Get h ''Date'') = Inr d)
                \<and> (\<exists>unix. ParseInt (Get h ''X-RateLimit-Reset'') 64 = Inr unix))
           \<and> Get h ''X-RateLimit-Remaining'' \<noteq> []
           \<and> ParseInt (Get h ''X-RateLimit-Remaining'') 32 = Inl e \<longrightarrow>
          Release pt b (Some (h(''X-Ratelimit-Remaining'' := None))) w = Some (w', None)
          \<and> remaining (bucketAt w' b) = remaining (bucketAt w b))"
proof -
  let ?A = "\<lambda>e. Get h ''Retry-After'' \<noteq> [] \<and> ParseInt (Get h ''Retry-After'') 64 = Inl e"
  let ?B = "\<lambda>e. Get h ''Retry-After'' = [] \<and> Get h ''X-RateLimit-Reset'' \<noteq> []
             \<and> pt (Get h ''Date'') = Inl e"
  let ?C = "\<lambda>e. Get h ''Retry-After'' = [] \<and> Get h ''X-RateLimit-Reset'' \<noteq> []
             \<and> (\<exists>d. pt (Get h ''Date'') = Inr d)
             \<and> ParseInt (Get h ''X-RateLimit-Reset'') 64 = Inl e"
  let ?X = "\<lambda>e. ?A e \<or> ?B e \<or> ?C e"
  let ?X' = "\<lambda>e. (Get h ''Retry-After'' \<noteq> [] \<and> ParseInt (Get h ''Retry-After'') 64 = Inl e)
           \<or> (Get h ''Retry-After'' = [] \<and> Get h ''X-RateLimit-Reset'' \<noteq> []
                \<and> (pt (Get h ''Date'') = Inl e
                     \<or> ParseInt (Get h ''X-RateLimit-Reset'') 64 = Inl e))"
  let ?O1 = "Get h ''Retry-After'' \<noteq> [] \<longrightarrow> (\<exists>n. ParseInt (Get h ''Retry-After'') 64 = Inr n)"
  let ?O2 = "Get h ''Retry-After'' = [] \<and> Get h ''X-RateLimit-Reset'' \<noteq> [] \<longrightarrow>
                  (\<exists>d. pt (Get h ''Date'') = Inr d)
                  \<and> (\<exists>unix. ParseInt (Get h ''X-RateLimit-Reset'') 64 = Inr unix)"
  let ?ok = "?O1 \<and> ?O2"
  let ?D1 = "Get h ''X-RateLimit-Remaining'' \<noteq> []"
  let ?D2 = "\<lambda>e. ParseInt (Get h ''X-RateLimit-Remaining'') 32 = Inl e"
  let ?D = "\<lambda>e. ?D1 \<and> ?D2 e"
  let ?unl = "update_bucket b (\<lambda>v. v\<lparr>locked := False\<rparr>)"
  have unl: "\<not> locked (bucketAt (?unl w2) b)" for w2
    by (simp add: update_bucket_def)
  have X'_ok: "\<not> ?X' e" if "?ok" for e
    using that by auto
  show ?thesis
  proof (cases "Release_reset pt b h w")
    case (Inl e)
    have rel: "Release pt b (Some h) w = Some (?unl w, Some e)"
      unfolding Release_no_rule [OF assms] by (simp add: Inl)
    have not_ok: "\<not> ?ok"
      using Release_reset_Inr_iff [of pt b h w] Inl by simp
    have hit: "?X e"
      using Release_reset_Inl_iff [of pt b h w e] Inl by blast
    have uniq: "e' = e" if "?X e'" for e'
      using Release_reset_Inl_iff [of pt b h w e'] that Inl by simp
    have c3: "(Some e = Some e') = (?X e' \<or> (?ok \<and> ?D e'))" for e'
    proof
      assume "Some e = Some e'"
      then have "e' = e" by simp
      with hit show "?X e' \<or> (?ok \<and> ?D e')" by blast
    next
      assume "?X e' \<or> (?ok \<and> ?D e')"
      with not_ok have "?X e'" by blast
      then have "e' = e" by (rule uniq)
      then show "Some e = Some e'" by simp
    qed
    have c3': "(Some e = Some e') = (?A e' \<or> ?B e' \<or> ?C e' \<or> (?O1 \<and> ?O2 \<and> ?D1 \<and> ?D2 e'))" for e'
      using c3 [of e'] by (simp only: disj_assoc conj_assoc)
    have F: "Release pt b (Some h) w = Some (?unl w, Some e) \<and> \<not> locked (bucketAt (?unl w) b)
      \<and> (\<forall>e'. (Some e = Some e') = (?A e' \<or> ?B e' \<or> ?C e' \<or> (?O1 \<and> ?O2 \<and> ?D1 \<and> ?D2 e')))
      \<and> (\<forall>e'. ?X' e' \<longrightarrow> ?unl w = ?unl w)
      \<and> (\<forall>e'. ?O1 \<and> ?O2 \<and> ?D1 \<and> ?D2 e' \<longrightarrow>
          Release pt b (Some (h(''X-Ratelimit-Remaining'' := None))) w = Some (?unl w, None)
          \<and> remaining (bucketAt (?unl w) b) = remaining (bucketAt w b))"
      using rel unl c3' not_ok by blast
    show ?thesis
      by (rule exI [of _ "?unl w"], rule exI [of _ "Some e"]) (rule F)
  next
    case (Inr w1)
    have ok: "?ok"
      using Release_reset_Inr_iff [of pt b h w] Inr by simp
    have no: "\<not> ?X e" for e
      using Inr Release_reset_Inl_iff [of pt b h w e] by simp
    have no': "\<not> ?X' e" for e
      using ok by (rule X'_ok)
    have dropped: "Release pt b (Some (h(''X-Ratelimit-Remaining'' := None))) w
        = Some (?unl w1, None)"
      unfolding Release_no_rule [OF assms]
      by (simp add: Release_reset_drop_remaining Release_remaining_dropped Inr)
    have rem1: "remaining (bucketAt w1 b) = remaining (bucketAt w b)"
      using Inr
      by (auto simp: Release_reset_def Let_def update_bucket_def split: if_splits sum.splits)
    obtain w2 err where r: "Release_remaining b h w1 = (w2, err)"
      by (cases "Release_remaining b h w1")
    have rel: "Release pt b (Some h) w = Some (?unl w2, err)"
      unfolding Release_no_rule [OF assms] by (simp add: Inr r)
    have c3: "(err = Some e') = (?X e' \<or> (?ok \<and> ?D e'))" for e'
    proof -
      have "(err = Some e') = ?D e'"
        using Release_remaining_snd [of b h w1 e'] by (simp add: r)
      with no [of e'] ok show ?thesis by blast
    qed
    have c5: "Release pt b (Some (h(''X-Ratelimit-Remaining'' := None))) w = Some (?unl w2, None)
          \<and> remaining (bucketAt (?unl w2) b) = remaining (bucketAt w b)" if "?D e'" for e'
    proof -
      from that have "Release_remaining b h w1 = (w1, Some e')"
        using Release_remaining_error by blast
      then have "w2 = w1" using r by simp
      then show ?thesis
        by (simp add: dropped rem1 update_bucket_def)
    qed
    have c3': "(err = Some e') = (?A e' \<or> ?B e' \<or> ?C e' \<or> (?O1 \<and> ?O2 \<and> ?D1 \<and> ?D2 e'))" for e'
      using c3 [of e'] by (simp only: disj_assoc conj_assoc)
    have F: "Release pt b (Some h) w = Some (?unl w2, err) \<and> \<not> locked (bucketAt (?unl w2) b)
      \<and> (\<forall>e'. (err = Some e') = (?A e' \<or> ?B e' \<or> ?C e' \<or> (?O1 \<and> ?O2 \<and> ?D1 \<and> ?D2 e')))
      \<and> (\<forall>e'. ?X' e' \<longrightarrow> ?unl w2 = ?unl w)
      \<and> (\<forall>e'. ?O1 \<and> ?O2 \<and> ?D1 \<and> ?D2 e' \<longrightarrow>
          Release pt b (Some (h(''X-Ratelimit-Remaining'' := None))) w = Some (?unl w2, None)
          \<and> remaining (bucketAt (?unl w2) b) = remaining (bucketAt w b))"
      using rel unl c3' c5 no' by blast
    show ?thesis
      by (rule exI [of _ "?unl w2"], rule exI [of _ err]) (rule F)
  qed
qed

text \<open>
  The claim C4 as stated fails: with \<^verbatim>\<open>Retry-After: 1000\<close> and the malformed
  \<^verbatim>\<open>X-RateLimit-Reset: abc\<close>, the reset header is never read and \<^verbatim>\<open>Release\<close> returns no
  error.
\<close>

theorem Release_parse_errors_counterexample:
  "Get [''Retry-After'' \<mapsto> [''1000''], ''X-Ratelimit-Reset'' \<mapsto> [''abc'']]
        ''X-RateLimit-Reset'' = ''abc''
   \<and> ParseInt ''abc'' 64 = Inl ErrSyntax
   \<and> customRateLimit (bucketAt one_bucket 0) = None
   \<and> map_option snd
        (Release parse_one_date 0
          (Some [''Retry-After'' \<mapsto> [''1000''], ''X-Ratelimit-Reset'' \<mapsto> [''abc'']]) one_bucket)
      = Some None"
  by (simp add: Release_no_rule one_bucket_simps Release_reset_def Release_remaining_def Get_simps
      ParseInt_examples update_bucket_def)

theorem Release_parse_errors_witness:
  "(case Release parse_one_date 0
          (Some [''Retry-After'' \<mapsto> [''abc''], ''X-Ratelimit-Remaining'' \<mapsto> [''5'']]) one_bucket of
      None \<Rightarrow> False
    | Some (w', err) \<Rightarrow>
        err = Some ErrSyntax \<and> \<not> locked (bucketAt w' 0)
        \<and> w' = update_bucket 0 (\<lambda>v. v\<lparr>locked := False\<rparr>) one_bucket)
   \<and> (case Release parse_one_date 0
          (Some [''Retry-After'' \<mapsto> [''2000''], ''X-Ratelimit-Remaining'' \<mapsto> [''many'']]) one_bucket of
      None \<Rightarrow> False
    | Some (w', err) \<Rightarrow>
        err = Some ErrSyntax \<and> \<not> locked (bucketAt w' 0)
        \<and> remaining (bucketAt w' 0) = 0
        \<and> Bucket.reset (bucketAt w' 0) = 1600000002000000000)"
proof -
  let ?ha = "[''Retry-After'' \<mapsto> [''abc''], ''X-Ratelimit-Remaining'' \<mapsto> [''5'']]"
  let ?hb = "[''Retry-After'' \<mapsto> [''2000''], ''X-Ratelimit-Remaining'' \<mapsto> [''many'']]"
  note ex = one_bucket_simps Get_simps ParseInt_examples
  have n: "customRateLimit (bucketAt one_bucket 0) = None"
    and l: "locked (bucketAt one_bucket 0)"
    by (simp_all add: ex)
  from Release_parse_errors [OF n l, of parse_one_date ?ha]
  obtain wa ea where rel_a: "Release parse_one_date 0 (Some ?ha) one_bucket = Some (wa, ea)"
    and unl_a: "\<not> locked (bucketAt wa 0)"
    by (elim exE conjE) (rule that)
  have ra: "Release parse_one_date 0 (Some ?ha) one_bucket
      = Some (update_bucket 0 (\<lambda>v. v\<lparr>locked := False\<rparr>) one_bucket, Some ErrSyntax)"
    unfolding Release_no_rule [OF n l] by (simp add: Release_reset_def ex)
  from Release_parse_errors [OF n l, of parse_one_date ?hb]
  obtain wb eb where rel_b: "Release parse_one_date 0 (Some ?hb) one_bucket = Some (wb, eb)"
    and unl_b: "\<not> locked (bucketAt wb 0)"
    by (elim exE conjE) (rule that)
  have rb: "Release parse_one_date 0 (Some ?hb) one_bucket
      = Some (update_bucket 0 (\<lambda>v. v\<lparr>locked := False\<rparr>)
          (update_bucket 0 (\<lambda>v. v\<lparr>Bucket.reset := 1600000002000000000\<rparr>) one_bucket),
          Some ErrSyntax)"
    unfolding Release_no_rule [OF n l]
    by (simp add: Release_reset_def Release_remaining_def ex Time_Add_def Millisecond_def)
  have a: "ea = Some ErrSyntax \<and> \<not> locked (bucketAt wa 0)
      \<and> wa = update_bucket 0 (\<lambda>v. v\<lparr>locked := False\<rparr>) one_bucket"
    using rel_a unl_a ra by simp
  have b: "eb = Some ErrSyntax \<and> \<not> locked (bucketAt wb 0)
      \<and> remaining (bucketAt wb 0) = 0 \<and> Bucket.reset (bucketAt wb 0) = 1600000002000000000"
    using rel_b unl_b rb by (auto simp: update_bucket_def ex)
  from a b show ?thesis
    by (auto simp: rel_a rel_b)
qed

subsection \<open>Release on a bucket without a rule: the remaining count\<close>

lemma sint_of_nat64:
  assumes "n \<le> 9223372036854775807"
  shows "sint (word_of_nat n :: 64 word) = int n"
proof -
  have "sint (word_of_int (int n) :: 64 word) = int n"
    using assms by (intro sint_int64) simp_all
  then show ?thesis by simp
qed

lemma sint_neg_of_nat64:
  assumes "n \<le> 9223372036854775808"
  shows "sint (- word_of_nat n :: 64 word) = - int n"
proof -
  have "sint (word_of_int (- int n) :: 64 word) = - int n"
    using assms by (intro sint_int64) simp_all
  then show ?thesis by simp
qed

lemma ParseInt_32_range:
  assumes "ParseInt s 32 = Inr v"
  shows "- 2147483648 \<le> sint v \<and> sint v \<le> 2147483647"
  using assms
  by (auto simp: ParseInt_def Let_def sint_of_nat64 sint_neg_of_nat64
      split: list.splits sum.splits if_splits)

text \<open>
  C5, as amended. On a checked-out bucket with no rule, when \<^verbatim>\<open>X-RateLimit-Remaining\<close> is
  present and parses as a 32-bit decimal integer \<open>v\<close>: if every header read before it parses
  (\<^verbatim>\<open>Retry-After\<close> when present; \<^verbatim>\<open>Date\<close> and \<^verbatim>\<open>X-RateLimit-Reset\<close> when
  \<^verbatim>\<open>Retry-After\<close> is absent and \<^verbatim>\<open>X-RateLimit-Reset\<close> present), \<^verbatim>\<open>Release\<close> returns no
  error and leaves \<open>remaining = v\<close>; otherwise it returns an error and \<open>remaining\<close> is as it
  was.
\<close>

theorem Release_remaining_header:
  assumes "customRateLimit (bucketAt w b) = None"
    and "locked (bucketAt w b)"
    and "Get h ''X-RateLimit-Remaining'' \<noteq> []"
    and "ParseInt (Get h ''X-RateLimit-Remaining'') 32 = Inr v"
  shows "\<exists>w' err. Release pt b (Some h) w = Some (w', err)
    \<and> - 2147483648 \<le> sint v \<and> sint v \<le> 2147483647
    \<and> ((Get h ''Retry-After'' \<noteq> [] \<longrightarrow> (\<exists>n. ParseInt (Get h ''Retry-After'') 64 = Inr n))
        \<and> (Get h ''Retry-After'' = [] \<and> Get h ''X-RateLimit-Reset'' \<noteq> [] \<longrightarrow>
             (\<exists>d. pt (Get h ''Date'') = Inr d)
             \<and> (\<exists>unix. ParseInt (Get h ''X-RateLimit-Reset'') 64 = Inr unix)) \<longrightarrow>
          err = None \<and> remaining (bucketAt w' b) = v)
    \<and> (\<not> ((Get h ''Retry-After'' \<noteq> [] \<longrightarrow> (\<exists>n. ParseInt (Get h ''Retry-After'') 64 = Inr n))
        \<and> (Get h ''Retry-After'' = [] \<and> Get h ''X-RateLimit-Reset'' \<noteq> [] \<longrightarrow>
             (\<exists>d. pt (Get h ''Date'') = Inr d)
             \<and> (\<exists>unix. ParseInt (Get h ''X-RateLimit-Reset'') 64 = Inr unix))) \<longrightarrow>
          err \<noteq> None \<and> remaining (bucketAt w' b) = remaining (bucketAt w b))"
proof (cases "Release_reset pt b h w")
  case (Inl e)
  then have "\<not> (\<exists>w1. Release_reset pt b h w = Inr w1)" by simp
  then show ?thesis
    unfolding Release_reset_Inr_iff Release_no_rule [OF assms(1,2)]
    using ParseInt_32_range [OF assms(4)] by (simp add: Inl update_bucket_def)
next
  case (Inr w1)
  then have "\<exists>w1. Release_reset pt b h w = Inr w1" by simp
  then show ?thesis
    unfolding Release_reset_Inr_iff Release_no_rule [OF assms(1,2)]
    using ParseInt_32_range [OF assms(4)] assms(3,4)
    by (simp add: Inr update_bucket_def Release_remaining_def)
qed

text \<open>
  The claim C5 as stated fails: with the malformed \<^verbatim>\<open>Retry-After: abc\<close> and
  \<^verbatim>\<open>X-RateLimit-Remaining: 5\<close>, \<^verbatim>\<open>Release\<close> returns the syntax error and \<open>remaining\<close>
  stays 0.
\<close>

theorem Release_remaining_header_counterexample:
  "ParseInt ''5'' 32 = Inr 5
   \<and> Get [''Retry-After'' \<mapsto> [''abc''], ''X-Ratelimit-Remaining'' \<mapsto> [''5'']]
        ''X-RateLimit-Remaining'' = ''5''
   \<and> customRateLimit (bucketAt one_bucket 0) = None
   \<and> map_option (\<lambda>r. (remaining (bucketAt (fst r) 0), snd r))
        (Release parse_one_date 0
          (Some [''Retry-After'' \<mapsto> [''abc''], ''X-Ratelimit-Remaining'' \<mapsto> [''5'']]) one_bucket)
      = Some (0, Some ErrSyntax)"
  by (simp add: Release_no_rule one_bucket_simps Release_reset_def Get_simps ParseInt_examples
      update_bucket_def)

theorem Release_remaining_header_witness:
  "(case Release parse_one_date 0 (Some [''X-Ratelimit-Remaining'' \<mapsto> [''5'']]) one_bucket of
      None \<Rightarrow> False
    | Some (w', err) \<Rightarrow> err = None \<and> remaining (bucketAt w' 0) = 5)
   \<and> (case Release parse_one_date 0
          (Some [''X-Ratelimit-Reset'' \<mapsto> [''1600000005''], ''X-Ratelimit-Remaining'' \<mapsto> [''5'']])
          one_bucket of
      None \<Rightarrow> False
    | Some (w', err) \<Rightarrow> err \<noteq> None \<and> remaining (bucketAt w' 0) = 0)"
proof -
  note ex = one_bucket_simps Get_simps ParseInt_examples parse_one_date_def
  have a: "case Release parse_one_date 0 (Some [''X-Ratelimit-Remaining'' \<mapsto> [''5'']]) one_bucket of
      None \<Rightarrow> False
    | Some (w', err) \<Rightarrow> err = None \<and> remaining (bucketAt w' 0) = 5"
    using Release_remaining_header [of one_bucket 0 "[''X-Ratelimit-Remaining'' \<mapsto> [''5'']]" 5
        parse_one_date]
    by (auto simp: ex)
  have b: "case Release parse_one_date 0
          (Some [''X-Ratelimit-Reset'' \<mapsto> [''1600000005''], ''X-Ratelimit-Remaining'' \<mapsto> [''5'']])
          one_bucket of
      None \<Rightarrow> False
    | Some (w', err) \<Rightarrow> err \<noteq> None \<and> remaining (bucketAt w' 0) = 0"
    using Release_remaining_header [of one_bucket 0
        "[''X-Ratelimit-Reset'' \<mapsto> [''1600000005''], ''X-Ratelimit-Remaining'' \<mapsto> [''5'']]" 5
        parse_one_date]
    by (auto simp: ex)
  from a b show ?thesis by blast
qed

subsection \<open>getBucket\<close>

lemma HasSuffix_iff: "HasSuffix s suff \<longleftrightarrow> (\<exists>p. s = p @ suff)"
proof
  assume "HasSuffix s suff"
  then have "s = take (length s - length suff) s @ suff"
    by (metis HasSuffix_def append_take_drop_id)
  then show "\<exists>p. s = p @ suff" ..
next
  assume "\<exists>p. s = p @ suff"
  then show "HasSuffix s suff"
    by (auto simp: HasSuffix_def)
qed

lemma match_rule_None:
  "match_rule h key l = None \<longleftrightarrow> (\<forall>rl \<in> set l. \<not> HasSuffix key (suffix (h rl)))"
  by (induction l) auto

lemma match_rule_Some:
  "match_rule h key l = Some rl \<longleftrightarrow>
     (\<exists>i < length l. l ! i = rl \<and> HasSuffix key (suffix (h rl))
        \<and> (\<forall>j < i. \<not> HasSuffix key (suffix (h (l ! j)))))"
proof (induction l)
  case Nil
  then show ?case by simp
next
  case (Cons a l)
  show ?case
  proof (cases "HasSuffix key (suffix (h a))")
    case True
    have "(\<exists>i < length (a # l). (a # l) ! i = rl \<and> HasSuffix key (suffix (h rl))
        \<and> (\<forall>j < i. \<not> HasSuffix key (suffix (h ((a # l) ! j))))) \<longleftrightarrow> a = rl"
    proof
      assume "\<exists>i < length (a # l). (a # l) ! i = rl \<and> HasSuffix key (suffix (h rl))
        \<and> (\<forall>j < i. \<not> HasSuffix key (suffix (h ((a # l) ! j))))"
      then obtain i where i: "(a # l) ! i = rl"
        "\<forall>j < i. \<not> HasSuffix key (suffix (h ((a # l) ! j)))" by blast
      have "i = 0"
      proof (rule ccontr)
        assume "i \<noteq> 0"
        then have "0 < i" by simp
        with i(2) have "\<not> HasSuffix key (suffix (h ((a # l) ! 0)))" by blast
        with True show False by simp
      qed
      with i(1) show "a = rl" by simp
    next
      assume "a = rl"
      with True show "\<exists>i < length (a # l). (a # l) ! i = rl \<and> HasSuffix key (suffix (h rl))
        \<and> (\<forall>j < i. \<not> HasSuffix key (suffix (h ((a # l) ! j))))"
        by (intro exI [of _ 0]) simp
    qed
    with True show ?thesis by simp
  next
    case False
    have "(\<exists>i < length (a # l). (a # l) ! i = rl \<and> HasSuffix key (suffix (h rl))
        \<and> (\<forall>j < i. \<not> HasSuffix key (suffix (h ((a # l) ! j)))))
      \<longleftrightarrow> (\<exists>i < length l. l ! i = rl \<and> HasSuffix key (suffix (h rl))
        \<and> (\<forall>j < i. \<not> HasSuffix key (suffix (h (l ! j)))))" (is "?L \<longleftrightarrow> ?R")
    proof
      assume ?L
      then obtain i where i: "i < length (a # l)" "(a # l) ! i = rl"
        "HasSuffix key (suffix (h rl))"
        "\<forall>j < i. \<not> HasSuffix key (suffix (h ((a # l) ! j)))" by blast
      from i(2,3) False have "i \<noteq> 0" by (cases i) auto
      then obtain i' where i': "i = Suc i'" by (cases i) auto
      have "\<forall>j < i'. \<not> HasSuffix key (suffix (h (l ! j)))"
      proof (intro allI impI)
        fix j assume "j < i'"
        then have "Suc j < i" using i' by simp
        with i(4) have "\<not> HasSuffix key (suffix (h ((a # l) ! Suc j)))" by blast
        then show "\<not> HasSuffix key (suffix (h (l ! j)))" by simp
      qed
      with i i' show ?R by (intro exI [of _ i']) simp
    next
      assume ?R
      then obtain i where i: "i < length l" "l ! i = rl" "HasSuffix key (suffix (h rl))"
        "\<forall>j < i. \<not> HasSuffix key (suffix (h (l ! j)))" by blast
      have "\<forall>j < Suc i. \<not> HasSuffix key (suffix (h ((a # l) ! j)))"
      proof (intro allI impI)
        fix j assume j: "j < Suc i"
        show "\<not> HasSuffix key (suffix (h ((a # l) ! j)))"
        proof (cases j)
          case 0
          with False show ?thesis by simp
        next
          case (Suc j')
          with j i(4) show ?thesis by simp
        qed
      qed
      with i show ?L by (intro exI [of _ "Suc i"]) simp
    qed
    with False Cons.IH show ?thesis by simp
  qed
qed

lemma map_of_snoc_new:
  "m k = None \<Longrightarrow> [k \<mapsto> v] ++ m = m(k \<mapsto> v)"
  by (rule ext) (auto simp: map_add_def split: option.splits)
lemma getBucket_new:
  assumes "map_of (buckets w) key = None"
  shows "getBucket key w =
     (nextBucket w,
      w\<lparr>bucketAt := (bucketAt w)
           (nextBucket w :=
              \<lparr>locked = False, Key = key, remaining = 1, limit = 0, reset = zeroTime,
               lastReset = zeroTime,
               customRateLimit = match_rule (ruleAt w) key (customRateLimits w)\<rparr>),
         nextBucket := Suc (nextBucket w),
         buckets := buckets w @ [(key, nextBucket w)]\<rparr>)"
  using assms by (simp add: getBucket_def Let_def)

lemma two_rules_simps:
  "buckets two_rules = [(''/channels/1/messages'', 0)]"
  "customRateLimits two_rules = [0, 1]"
  "suffix (ruleAt two_rules 0) = ''/messages''"
  "suffix (ruleAt two_rules (Suc 0)) = ''messages''"
  "nextBucket two_rules = 1"
  "nextRule two_rules = 2"
  "bucketAt two_rules 0 = ruled_bucket"
  by (simp_all add: two_rules_def one_rule_def one_bucket_def NewRatelimiter_def)


text \<open>
  C9. When the key is registered, \<^verbatim>\<open>getBucket\<close> returns the registered bucket and leaves
  the state as it is. When it is not, \<^verbatim>\<open>getBucket\<close> allocates a bucket with this key,
  \<open>remaining = 1\<close> and zero instants, registers it under the key and changes nothing else; the
  rule of the new bucket is the first one of the slice, in its order, whose suffix ends the key
  (\<open>key = p @ suffix\<close> for some \<open>p\<close>), and none if no suffix does. A second lookup of the key
  returns the same pointer and the state of the first.
\<close>

theorem getBucket_registry:
  "(\<forall>bucket. map_of (buckets w) key = Some bucket \<longrightarrow> getBucket key w = (bucket, w))
   \<and> (map_of (buckets w) key = None \<longrightarrow>
        (\<exists>w'. getBucket key w = (nextBucket w, w')
          \<and> w' = w\<lparr>bucketAt := (bucketAt w)(nextBucket w := bucketAt w' (nextBucket w)),
                   nextBucket := Suc (nextBucket w),
                   buckets := buckets w @ [(key, nextBucket w)]\<rparr>
          \<and> map_of (buckets w') = (map_of (buckets w))(key \<mapsto> nextBucket w)
          \<and> bucketAt w' (nextBucket w) =
               \<lparr>locked = False, Key = key, remaining = 1, limit = 0, reset = zeroTime,
                lastReset = zeroTime,
                customRateLimit = customRateLimit (bucketAt w' (nextBucket w))\<rparr>
          \<and> (customRateLimit (bucketAt w' (nextBucket w)) = None \<longrightarrow>
               (\<forall>rl \<in> set (customRateLimits w). \<not> HasSuffix key (suffix (ruleAt w rl))))
          \<and> (\<forall>rl. customRateLimit (bucketAt w' (nextBucket w)) = Some rl \<longrightarrow>
               (\<exists>i < length (customRateLimits w). customRateLimits w ! i = rl
                  \<and> HasSuffix key (suffix (ruleAt w rl))
                  \<and> (\<forall>j < i. \<not> HasSuffix key (suffix (ruleAt w (customRateLimits w ! j))))))))
   \<and> getBucket key (snd (getBucket key w)) = getBucket key w
   \<and> (\<forall>suff. HasSuffix key suff \<longleftrightarrow> (\<exists>p. key = p @ suff))"
proof -
  have a: "\<forall>bucket. map_of (buckets w) key = Some bucket \<longrightarrow> getBucket key w = (bucket, w)"
    by (simp add: getBucket_def)
  have b: "map_of (buckets w) key = None \<longrightarrow>
        (\<exists>w'. getBucket key w = (nextBucket w, w')
          \<and> w' = w\<lparr>bucketAt := (bucketAt w)(nextBucket w := bucketAt w' (nextBucket w)),
                   nextBucket := Suc (nextBucket w),
                   buckets := buckets w @ [(key, nextBucket w)]\<rparr>
          \<and> map_of (buckets w') = (map_of (buckets w))(key \<mapsto> nextBucket w)
          \<and> bucketAt w' (nextBucket w) =
               \<lparr>locked = False, Key = key, remaining = 1, limit = 0, reset = zeroTime,
                lastReset = zeroTime,
                customRateLimit = customRateLimit (bucketAt w' (nextBucket w))\<rparr>
          \<and> (customRateLimit (bucketAt w' (nextBucket w)) = None \<longrightarrow>
               (\<forall>rl \<in> set (customRateLimits w). \<not> HasSuffix key (suffix (ruleAt w rl))))
          \<and> (\<forall>rl. customRateLimit (bucketAt w' (nextBucket w)) = Some rl \<longrightarrow>
               (\<exists>i < length (customRateLimits w). customRateLimits w ! i = rl
                  \<and> HasSuffix key (suffix (ruleAt w rl))
                  \<and> (\<forall>j < i. \<not> HasSuffix key (suffix (ruleAt w (customRateLimits w ! j)))))))"
    by (simp add: getBucket_def Let_def map_of_snoc_new match_rule_None match_rule_Some)
  have c: "getBucket key (snd (getBucket key w)) = getBucket key w"
  proof (cases "map_of (buckets w) key")
    case None
    then show ?thesis
      by (simp add: getBucket_def Let_def map_of_snoc_new)
  next
    case (Some bucket)
    then show ?thesis by (simp add: getBucket_def)
  qed
  from a b c HasSuffix_iff show ?thesis by blast
qed

theorem getBucket_registry_witness:
  "getBucket ''/channels/1/messages'' two_rules = (0, two_rules)
   \<and> fst (getBucket ''/channels/2/messages'' two_rules) = 1
   \<and> customRateLimit (bucketAt (snd (getBucket ''/channels/2/messages'' two_rules)) 1) = Some 0
   \<and> remaining (bucketAt (snd (getBucket ''/channels/2/messages'' two_rules)) 1) = 1
   \<and> customRateLimit (bucketAt (snd (getBucket ''/guilds/7'' two_rules)) 1) = None
   \<and> getBucket ''/channels/2/messages'' (snd (getBucket ''/channels/2/messages'' two_rules))
       = getBucket ''/channels/2/messages'' two_rules"
proof -
  have m1: "map_of (buckets two_rules) ''/channels/1/messages'' = Some 0"
    by (simp add: two_rules_simps)
  have m2: "map_of (buckets two_rules) ''/channels/2/messages'' = None"
    by (simp add: two_rules_simps)
  have m3: "map_of (buckets two_rules) ''/guilds/7'' = None"
    by (simp add: two_rules_simps)
  have a: "getBucket ''/channels/1/messages'' two_rules = (0, two_rules)"
    using getBucket_registry [of two_rules "''/channels/1/messages''"] m1 by blast
  have c: "getBucket ''/channels/2/messages'' (snd (getBucket ''/channels/2/messages'' two_rules))
       = getBucket ''/channels/2/messages'' two_rules"
    using getBucket_registry [of two_rules "''/channels/2/messages''"] by blast
  have b: "fst (getBucket ''/channels/2/messages'' two_rules) = 1"
    "customRateLimit (bucketAt (snd (getBucket ''/channels/2/messages'' two_rules)) 1) = Some 0"
    "remaining (bucketAt (snd (getBucket ''/channels/2/messages'' two_rules)) 1) = 1"
    by (simp_all add: getBucket_new [OF m2] two_rules_simps HasSuffix_def)
  have d: "customRateLimit (bucketAt (snd (getBucket ''/guilds/7'' two_rules)) 1) = None"
    by (simp add: getBucket_new [OF m3] two_rules_simps HasSuffix_def)
  from a b c d show ?thesis by simp
qed

subsection \<open>LockBucket\<close>

lemma Time_Sub_exact:
  assumes "0 \<le> t - u" and "t - u \<le> 9223372036854775807"
  shows "sint (Time_Sub t u) = t - u"
  using assms by (simp add: Time_Sub_sint)

lemma Sleep_until:
  assumes "now w < t" and "t \<le> now w + 9223372036854775807"
  shows "Sleep (Time_Sub t (now w)) w = w\<lparr>now := t\<rparr>"
proof -
  have "sint (Time_Sub t (now w)) = t - now w"
    using assms by (intro Time_Sub_exact) simp_all
  with assms show ?thesis by (simp add: Sleep_def)
qed

lemma wait_reset_eq:
  assumes "Bucket.reset (bucketAt w b) \<le> now w + 9223372036854775807"
  shows "wait_reset b w =
     w\<lparr>now := (if sint (remaining (bucketAt w b)) < 1
                then max (now w) (Bucket.reset (bucketAt w b)) else now w)\<rparr>"
  using assms Sleep_until [of w "Bucket.reset (bucketAt w b)"]
  by (auto simp: wait_reset_def Time_After_def max_def)

lemma Unix_0_le: "Unix 0 g \<le> 9223372036854775807"
  using sint_bounds64 [of g] by (simp add: Unix_0)

lemma wait_global_eq:
  assumes "0 \<le> now w"
  shows "wait_global w = w\<lparr>now := max (now w) (Unix 0 (global w))\<rparr>"
proof -
  have "Unix 0 (global w) \<le> now w + 9223372036854775807"
    using assms Unix_0_le [of "global w"] by linarith
  then show ?thesis
    using Sleep_until [of w "Unix 0 (global w)"]
    by (auto simp: wait_global_def Let_def Time_Before_def max_def)
qed

lemma Sleep_frame:
  "\<exists>t. now w \<le> t \<and> Sleep d w = w\<lparr>now := t\<rparr>"
  by (rule exI [of _ "now (Sleep d w)"]) (simp add: Sleep_def)

lemma wait_reset_frame:
  "\<exists>t. now w \<le> t \<and> wait_reset b w = w\<lparr>now := t\<rparr>"
proof (cases "sint (remaining (bucketAt w b)) < 1 \<and> Time_After (Bucket.reset (bucketAt w b)) (now w)")
  case True
  then show ?thesis
    using Sleep_frame [of w "Time_Sub (Bucket.reset (bucketAt w b)) (now w)"]
    by (simp add: wait_reset_def)
next
  case False
  then have "wait_reset b w = w\<lparr>now := now w\<rparr>"
    by (auto simp: wait_reset_def)
  then show ?thesis by (intro exI [of _ "now w"]) simp
qed

lemma wait_global_frame:
  "\<exists>t. now w \<le> t \<and> wait_global w = w\<lparr>now := t\<rparr>"
proof (cases "Time_Before (now w) (Unix 0 (global w))")
  case True
  then show ?thesis
    using Sleep_frame [of w "Time_Sub (Unix 0 (global w)) (now w)"]
    by (simp add: wait_global_def Let_def)
next
  case False
  then have "wait_global w = w\<lparr>now := now w\<rparr>"
    by (simp add: wait_global_def Let_def)
  then show ?thesis by (intro exI [of _ "now w"]) simp
qed

text \<open>
  With the slot free \<^verbatim>\<open>LockBucket\<close> returns the bucket of the key, checked out and with one
  unit less; the clock has not gone back and nothing else has changed.
\<close>

lemma LockBucket_returns:
  assumes "getBucket bucketID w = (b, w1)" and "\<not> locked (bucketAt w1 b)"
  shows "LockBucket bucketID w =
     Some (b, w1\<lparr>now := now (wait_global (wait_reset b (update_bucket b (\<lambda>v. v\<lparr>locked := True\<rparr>) w1))),
                 bucketAt := (bucketAt w1)
                   (b := (bucketAt w1 b)\<lparr>locked := True,
                                          remaining := remaining (bucketAt w1 b) - 1\<rparr>)\<rparr>)"
proof -
  let ?w2 = "update_bucket b (\<lambda>v. v\<lparr>locked := True\<rparr>) w1"
  let ?w3 = "wait_reset b ?w2"
  let ?w4 = "wait_global ?w3"
  obtain t3 where t3: "?w3 = ?w2\<lparr>now := t3\<rparr>"
    using wait_reset_frame [of ?w2 b] by blast
  obtain t4 where t4: "wait_global (?w2\<lparr>now := t3\<rparr>) = ?w2\<lparr>now := t3\<rparr>\<lparr>now := t4\<rparr>"
    using wait_global_frame [of "?w2\<lparr>now := t3\<rparr>"] by blast
  have w4: "?w4 = ?w2\<lparr>now := now ?w4\<rparr>"
    by (simp add: t3 t4)
  have "LockBucket bucketID w
      = Some (b, update_bucket b (\<lambda>v. v\<lparr>remaining := remaining v - 1\<rparr>) ?w4)"
    using assms unfolding LockBucket_def by (simp add: Let_def)
  also have "update_bucket b (\<lambda>v. v\<lparr>remaining := remaining v - 1\<rparr>) ?w4
      = update_bucket b (\<lambda>v. v\<lparr>remaining := remaining v - 1\<rparr>) (?w2\<lparr>now := now ?w4\<rparr>)"
    using w4 by simp
  finally show ?thesis by (simp add: update_bucket_def)
qed
lemma LockBucket_blocked:
  assumes "getBucket bucketID w = (b, w1)" and "locked (bucketAt w1 b)"
  shows "LockBucket bucketID w = None"
  using assms by (simp add: LockBucket_def)


lemma wait_global_idle:
  "\<not> Time_Before (now w) (Unix 0 (global w)) \<Longrightarrow> wait_global w = w"
  by (simp add: wait_global_def Let_def)

lemma wait_reset_idle:
  "\<not> sint (remaining (bucketAt w b)) < 1 \<or> \<not> Time_After (Bucket.reset (bucketAt w b)) (now w)
     \<Longrightarrow> wait_reset b w = w"
  by (auto simp: wait_reset_def)

text \<open>
  C1. When the slot of the bucket is free, \<^verbatim>\<open>LockBucket\<close> returns the bucket of the key,
  checked out, with \<open>remaining\<close> one less than before in every case; the clock has not gone
  back and nothing else has changed. Where the clock stands after the epoch and the bucket's
  \<open>reset\<close> is no more than the largest \<^verbatim>\<open>Duration\<close> ahead of it (which holds in every state
  the operations reach, see \<open>timely\<close> below), the call has slept until \<open>reset\<close> when
  \<open>remaining < 1\<close> and \<open>reset\<close> was ahead, and then until the global instant when that was
  ahead: the clock at the return is the later of the two, or the time of the call.
  While another caller holds the slot the call does not return (\<open>LockBucket_blocked\<close>).
\<close>

theorem LockBucket_waits_and_decrements:
  assumes "getBucket bucketID w = (b, w1)"
    and "\<not> locked (bucketAt w1 b)"
  shows "\<exists>w'. LockBucket bucketID w = Some (b, w')
    \<and> remaining (bucketAt w' b) = remaining (bucketAt w1 b) - 1
    \<and> locked (bucketAt w' b)
    \<and> w' = w1\<lparr>now := now w',
               bucketAt := (bucketAt w1)
                 (b := (bucketAt w1 b)\<lparr>locked := True,
                                        remaining := remaining (bucketAt w1 b) - 1\<rparr>)\<rparr>
    \<and> now w \<le> now w'
    \<and> (sint (remaining (bucketAt w1 b)) \<noteq> - 9223372036854775808 \<longrightarrow>
         sint (remaining (bucketAt w' b)) = sint (remaining (bucketAt w1 b)) - 1)
    \<and> (0 \<le> now w \<and> Bucket.reset (bucketAt w1 b) \<le> now w + 9223372036854775807 \<longrightarrow>
         (sint (remaining (bucketAt w1 b)) < 1 \<and> Time_After (Bucket.reset (bucketAt w1 b)) (now w)
            \<longrightarrow> Bucket.reset (bucketAt w1 b) \<le> now w')
       \<and> (Time_Before (now w) (Unix 0 (global w)) \<longrightarrow> Unix 0 (global w) \<le> now w')
       \<and> now w' = max (if sint (remaining (bucketAt w1 b)) < 1
                         then max (now w) (Bucket.reset (bucketAt w1 b)) else now w)
                        (Unix 0 (global w)))"
proof -
  have same: "now w1 = now w" "global w1 = global w"
    using assms(1) by (auto simp: getBucket_def Let_def split: option.splits)
  let ?w2 = "update_bucket b (\<lambda>v. v\<lparr>locked := True\<rparr>) w1"
  let ?w3 = "wait_reset b ?w2"
  let ?w4 = "wait_global ?w3"
  let ?w' = "w1\<lparr>now := now ?w4,
                 bucketAt := (bucketAt w1)
                   (b := (bucketAt w1 b)\<lparr>locked := True,
                                          remaining := remaining (bucketAt w1 b) - 1\<rparr>)\<rparr>"
  have w2: "now ?w2 = now w" "global ?w2 = global w"
    "Bucket.reset (bucketAt ?w2 b) = Bucket.reset (bucketAt w1 b)"
    "remaining (bucketAt ?w2 b) = remaining (bucketAt w1 b)"
    by (simp_all add: update_bucket_def same)
  have lock: "LockBucket bucketID w = Some (b, ?w')"
    using assms by (rule LockBucket_returns)
  have mono: "now w \<le> now ?w4"
  proof -
    obtain t3 where t3: "now ?w2 \<le> t3" "?w3 = ?w2\<lparr>now := t3\<rparr>"
      using wait_reset_frame [of ?w2 b] by blast
    obtain t4 where t4: "now ?w3 \<le> t4" "?w4 = ?w3\<lparr>now := t4\<rparr>"
      using wait_global_frame [of ?w3] by blast
    have "now ?w3 = t3" by (simp add: t3(2))
    moreover have "now ?w4 = t4" by (simp add: t4(2))
    ultimately show ?thesis using t3(1) t4(1) by (simp add: w2)
  qed
  let ?t3 = "if sint (remaining (bucketAt w1 b)) < 1
             then max (now w) (Bucket.reset (bucketAt w1 b)) else now w"
  have exact: "now ?w4 = max ?t3 (Unix 0 (global w))"
    if "0 \<le> now w" and "Bucket.reset (bucketAt w1 b) \<le> now w + 9223372036854775807"
  proof -
    have w3: "?w3 = ?w2\<lparr>now := ?t3\<rparr>"
      using wait_reset_eq [of ?w2 b] that(2) by (simp add: w2)
    have t3: "0 \<le> ?t3" using that(1) by (auto simp: max_def)
    have "wait_global (?w2\<lparr>now := ?t3\<rparr>) = ?w2\<lparr>now := max ?t3 (Unix 0 (global w))\<rparr>"
      using wait_global_eq [of "?w2\<lparr>now := ?t3\<rparr>"] t3 by (simp add: update_bucket_def same)
    then show ?thesis by (simp add: w3)
  qed
  have F: "LockBucket bucketID w = Some (b, ?w')
    \<and> remaining (bucketAt ?w' b) = remaining (bucketAt w1 b) - 1
    \<and> locked (bucketAt ?w' b)
    \<and> ?w' = w1\<lparr>now := now ?w',
               bucketAt := (bucketAt w1)
                 (b := (bucketAt w1 b)\<lparr>locked := True,
                                        remaining := remaining (bucketAt w1 b) - 1\<rparr>)\<rparr>
    \<and> now w \<le> now ?w'
    \<and> (sint (remaining (bucketAt w1 b)) \<noteq> - 9223372036854775808 \<longrightarrow>
         sint (remaining (bucketAt ?w' b)) = sint (remaining (bucketAt w1 b)) - 1)
    \<and> (0 \<le> now w \<and> Bucket.reset (bucketAt w1 b) \<le> now w + 9223372036854775807 \<longrightarrow>
         (sint (remaining (bucketAt w1 b)) < 1 \<and> Time_After (Bucket.reset (bucketAt w1 b)) (now w)
            \<longrightarrow> Bucket.reset (bucketAt w1 b) \<le> now ?w')
       \<and> (Time_Before (now w) (Unix 0 (global w)) \<longrightarrow> Unix 0 (global w) \<le> now ?w')
       \<and> now ?w' = max (if sint (remaining (bucketAt w1 b)) < 1
                         then max (now w) (Bucket.reset (bucketAt w1 b)) else now w)
                        (Unix 0 (global w)))"
    using lock mono exact by (auto simp: Time_After_def Time_Before_def sint_minus_one)
  show ?thesis
    by (rule exI [of _ ?w']) (rule F)
qed

lemma throttled_simps:
  "buckets throttled = [(''/channels/1/messages'', 0)]"
  "bucketAt throttled 0 = exhausted_bucket"
  "now throttled = 1600000000000000000"
  "global throttled = 1600000003000000000"
  by (simp_all add: throttled_def one_bucket_def NewRatelimiter_def)

theorem LockBucket_waits_and_decrements_witness:
  "map_option (\<lambda>r. (fst r, now (snd r), remaining (bucketAt (snd r) 0)))
     (LockBucket ''/channels/1/messages'' throttled) = Some (0, 1600000003000000000, - 1)
   \<and> map_option (\<lambda>r. (fst r, now (snd r), remaining (bucketAt (snd r) 0)))
     (LockBucket ''/channels/1/messages'' (throttled\<lparr>global := 0\<rparr>))
       = Some (0, 1600000002000000000, - 1)"
proof -
  have g: "getBucket ''/channels/1/messages'' throttled = (0, throttled)"
    by (simp add: getBucket_def throttled_simps)
  have f: "\<not> locked (bucketAt throttled 0)"
    by (simp add: throttled_simps exhausted_bucket_def)
  have g': "getBucket ''/channels/1/messages'' (throttled\<lparr>global := 0\<rparr>) = (0, throttled\<lparr>global := 0\<rparr>)"
    by (simp add: getBucket_def throttled_simps)
  have f': "\<not> locked (bucketAt (throttled\<lparr>global := 0\<rparr>) 0)"
    by (simp add: throttled_simps exhausted_bucket_def)
  have a: "map_option (\<lambda>r. (fst r, now (snd r), remaining (bucketAt (snd r) 0)))
     (LockBucket ''/channels/1/messages'' throttled) = Some (0, 1600000003000000000, - 1)"
    using LockBucket_waits_and_decrements [OF g f]
    by (auto simp: throttled_simps exhausted_bucket_def held_bucket_def Unix_0)
  have b: "map_option (\<lambda>r. (fst r, now (snd r), remaining (bucketAt (snd r) 0)))
     (LockBucket ''/channels/1/messages'' (throttled\<lparr>global := 0\<rparr>))
       = Some (0, 1600000002000000000, - 1)"
    using LockBucket_waits_and_decrements [OF g' f']
    by (auto simp: throttled_simps exhausted_bucket_def held_bucket_def Unix_0)
  from a b show ?thesis by simp
qed

subsection \<open>A new bucket\<close>

lemma Release_reset_frame:
  assumes "Release_reset pt b h w = Inr w1"
  shows "buckets w1 = buckets w \<and> remaining (bucketAt w1 b) = remaining (bucketAt w b)
    \<and> locked (bucketAt w1 b) = locked (bucketAt w b)"
  using assms
  by (auto simp: Release_reset_def Let_def update_bucket_def split: if_splits sum.splits)

lemma Release_keeps_remaining:
  assumes "customRateLimit (bucketAt w b) = None" and "locked (bucketAt w b)"
    and "headers = None \<or> (\<exists>h. headers = Some h \<and> Get h ''X-RateLimit-Remaining'' = [])"
  shows "\<exists>w2 err. Release pt b headers w = Some (w2, err)
    \<and> remaining (bucketAt w2 b) = remaining (bucketAt w b)
    \<and> \<not> locked (bucketAt w2 b) \<and> buckets w2 = buckets w"
proof (cases headers)
  case None
  then show ?thesis
    using assms(1,2) by (simp add: Release_def Release_body_def Unlock_def update_bucket_def)
next
  case (Some h)
  with assms(3) have rem: "Get h ''X-RateLimit-Remaining'' = []" by simp
  show ?thesis
  proof (cases "Release_reset pt b h w")
    case (Inl e)
    then show ?thesis
      unfolding Some Release_no_rule [OF assms(1,2)] by (simp add: update_bucket_def)
  next
    case (Inr w1)
    have "Release_remaining b h w1 = (w1, None)"
      using rem by (simp add: Release_remaining_def)
    then show ?thesis
      unfolding Some Release_no_rule [OF assms(1,2)]
      using Release_reset_frame [OF Inr] by (simp add: Inr update_bucket_def)
  qed
qed

lemma Release_custom_first:
  assumes "customRateLimit (bucketAt w b) = Some rl" and "locked (bucketAt w b)"
    and "lastReset (bucketAt w b) = zeroTime" and "0 \<le> now w"
  shows "\<exists>w2. Release pt b headers w = Some (w2, None)
    \<and> remaining (bucketAt w2 b) = requests (ruleAt w rl) - 1
    \<and> \<not> locked (bucketAt w2 b) \<and> buckets w2 = buckets w"
proof -
  have "Time_Sub (now w) zeroTime = maxDuration"
    using assms(4) by (simp add: Time_Sub_def zeroTime_def)
  then have "sint (customRateLimit.reset (ruleAt w rl))
      \<le> sint (Time_Sub (now w) (lastReset (bucketAt w b)))"
    using sint_bounds64 [of "customRateLimit.reset (ruleAt w rl)"]
    by (simp add: assms(3) maxDuration_def)
  then show ?thesis
    using assms(1,2)
    by (simp add: Release_def Release_body_def Release_custom_def Unlock_def update_bucket_def
        Let_def)
qed

lemma LockBucket_registered:
  assumes "map_of (buckets w) key = Some b" and "\<not> locked (bucketAt w b)"
  shows "\<exists>w'. LockBucket key w = Some (b, w')
    \<and> remaining (bucketAt w' b) = remaining (bucketAt w b) - 1"
proof -
  have g: "getBucket key w = (b, w)"
    using assms(1) by (simp add: getBucket_def)
  show ?thesis
    unfolding LockBucket_returns [OF g assms(2)] by simp
qed

lemma rule_only_simps:
  "buckets rule_only = []"
  "customRateLimits rule_only = [0]"
  "suffix (ruleAt rule_only 0) = ''/messages''"
  "requests (ruleAt rule_only 0) = 5"
  "customRateLimit.reset (ruleAt rule_only 0) = 1000000000"
  "nextBucket rule_only = 0"
  "now rule_only = 1600000000000000000"
  "global rule_only = 0"
  by (simp_all add: rule_only_def NewRatelimiter_def)

text \<open>
  C10, as amended. For a key that is not registered and a global instant that is not ahead of
  the clock: the bucket \<^verbatim>\<open>getBucket\<close> creates has \<open>remaining = 1\<close> and the zero \<open>reset\<close>;
  the first \<^verbatim>\<open>LockBucket\<close> returns it without moving the clock and leaves \<open>remaining = 0\<close>.
  A second \<^verbatim>\<open>LockBucket\<close> looks up the same bucket and waits for the slot, which only
  \<^verbatim>\<open>Release\<close> gives back. When no rule's suffix ends the key, a \<^verbatim>\<open>Release\<close> with nil headers,
  or with headers that carry no remaining count, leaves \<open>remaining = 0\<close>: the second
  \<^verbatim>\<open>LockBucket\<close> finds that and returns with \<open>remaining = -1\<close>, after nil headers without
  sleeping when the clock is past the zero instant. When a rule was attached at creation
  (and the clock is not before the Unix epoch), every \<^verbatim>\<open>Release\<close>, nil headers included,
  returns no error and sets \<open>remaining = requests - 1\<close>, which is what the second \<^verbatim>\<open>LockBucket\<close>
  finds.
\<close>

theorem new_bucket_first_lock:
  assumes "map_of (buckets w) key = None"
    and "\<not> Time_Before (now w) (Unix 0 (global w))"
  shows "\<exists>b w0 w1. getBucket key w = (b, w0) \<and> LockBucket key w = Some (b, w1)
    \<and> remaining (bucketAt w0 b) = 1 \<and> Bucket.reset (bucketAt w0 b) = zeroTime
    \<and> now w1 = now w
    \<and> remaining (bucketAt w1 b) = 0
    \<and> getBucket key w1 = (b, w1)
    \<and> LockBucket key w1 = None
    \<and> ((\<forall>rl \<in> set (customRateLimits w). \<not> HasSuffix key (suffix (ruleAt w rl))) \<longrightarrow>
         (\<forall>headers. headers = None
              \<or> (\<exists>h. headers = Some h \<and> Get h ''X-RateLimit-Remaining'' = []) \<longrightarrow>
            (\<exists>w2 err w3. Release pt b headers w1 = Some (w2, err)
               \<and> remaining (bucketAt w2 b) = 0
               \<and> LockBucket key w2 = Some (b, w3) \<and> remaining (bucketAt w3 b) = - 1
               \<and> (headers = None \<and> Time_After (now w) zeroTime \<longrightarrow> now w3 = now w))))
    \<and> (\<forall>rl. customRateLimit (bucketAt w0 b) = Some rl \<and> 0 \<le> now w \<longrightarrow>
         (\<forall>headers. \<exists>w2 w3. Release pt b headers w1 = Some (w2, None)
               \<and> remaining (bucketAt w2 b) = requests (ruleAt w rl) - 1
               \<and> LockBucket key w2 = Some (b, w3)
               \<and> remaining (bucketAt w3 b) = requests (ruleAt w rl) - 1 - 1))"
proof -
  let ?b = "nextBucket w"
  let ?new = "\<lparr>locked = False, Key = key, remaining = 1, limit = 0, reset = zeroTime,
               lastReset = zeroTime,
               customRateLimit = match_rule (ruleAt w) key (customRateLimits w)\<rparr>"
  let ?w0 = "w\<lparr>bucketAt := (bucketAt w)(?b := ?new),
         nextBucket := Suc ?b, buckets := buckets w @ [(key, ?b)]\<rparr>"
  let ?w1 = "?w0\<lparr>bucketAt := (bucketAt w)(?b := ?new\<lparr>locked := True, remaining := 0\<rparr>)\<rparr>"
  let ?w2 = "?w0\<lparr>bucketAt := (bucketAt w)(?b := ?new\<lparr>locked := False, remaining := 0\<rparr>)\<rparr>"
  have g0: "getBucket key w = (?b, ?w0)"
    using assms(1) by (rule getBucket_new)
  have m: "map_of (buckets w @ [(key, ?b)]) key = Some ?b"
    using assms(1) by (simp add: map_add_def)
  have idle: "wait_global (wait_reset ?b (update_bucket ?b (\<lambda>v. v\<lparr>locked := True\<rparr>) ?w0))
      = update_bucket ?b (\<lambda>v. v\<lparr>locked := True\<rparr>) ?w0"
    using assms(2)
    by (simp add: wait_reset_def wait_global_def Let_def update_bucket_def Time_Before_def)
  have l1: "LockBucket key w = Some (?b, ?w1)"
    unfolding LockBucket_returns [OF g0, simplified] idle
    by (simp add: update_bucket_def)
  have g1: "getBucket key ?w1 = (?b, ?w1)"
    using m by (simp add: getBucket_def)
  have l1': "LockBucket key ?w1 = None"
    by (rule LockBucket_blocked [OF g1]) simp
  have held: "locked (bucketAt ?w1 ?b)" by simp
  have plain: "\<exists>w2 err w3. Release pt ?b headers ?w1 = Some (w2, err)
               \<and> remaining (bucketAt w2 ?b) = 0
               \<and> LockBucket key w2 = Some (?b, w3) \<and> remaining (bucketAt w3 ?b) = - 1
               \<and> (headers = None \<and> Time_After (now w) zeroTime \<longrightarrow> now w3 = now w)"
    if none: "\<forall>rl \<in> set (customRateLimits w). \<not> HasSuffix key (suffix (ruleAt w rl))"
      and hd: "headers = None \<or> (\<exists>h. headers = Some h \<and> Get h ''X-RateLimit-Remaining'' = [])"
    for headers
  proof -
    have "match_rule (ruleAt w) key (customRateLimits w) = None"
      using none by (simp add: match_rule_None)
    then have nr: "customRateLimit (bucketAt ?w1 ?b) = None" by simp
    from Release_keeps_remaining [OF nr held hd, of pt]
    obtain w2 err where r: "Release pt ?b headers ?w1 = Some (w2, err)"
      and r2: "remaining (bucketAt w2 ?b) = 0" "\<not> locked (bucketAt w2 ?b)"
        "buckets w2 = buckets ?w1"
      by auto
    have "map_of (buckets w2) key = Some ?b"
      using m by (simp add: r2(3))
    from LockBucket_registered [OF this r2(2)]
    obtain w3 where l3: "LockBucket key w2 = Some (?b, w3)"
      and r3: "remaining (bucketAt w3 ?b) = - 1"
      by (auto simp: r2(1))
    have n3: "now w3 = now w" if "headers = None" and "Time_After (now w) zeroTime"
    proof -
      have "Release pt ?b None ?w1 = Some (?w2, None)"
        using nr by (simp add: Release_def Release_body_def Unlock_def update_bucket_def)
      with r that(1) have w2: "w2 = ?w2" by simp
      have g2: "getBucket key ?w2 = (?b, ?w2)"
        using m by (simp add: getBucket_def)
      let ?w3 = "?w2\<lparr>now := now (wait_global (wait_reset ?b
                  (update_bucket ?b (\<lambda>v. v\<lparr>locked := True\<rparr>) ?w2))),
                bucketAt := (bucketAt ?w2)
                   (?b := (bucketAt ?w2 ?b)\<lparr>locked := True,
                                          remaining := remaining (bucketAt ?w2 ?b) - 1\<rparr>)\<rparr>"
      have l2: "LockBucket key ?w2 = Some (?b, ?w3)"
        by (rule LockBucket_returns [OF g2]) simp
      have n: "now ?w3 = now w"
        using assms(2) that(2)
        by (simp add: wait_reset_def wait_global_def Let_def update_bucket_def Time_Before_def
            Time_After_def)
      have "w3 = ?w3"
        using l3 l2 unfolding w2 by (simp only: option.inject prod.inject)
      then show ?thesis
        using n by (simp only:)
    qed
    show ?thesis
      using r r2(1) l3 r3 n3 by blast
  qed
  have ruled: "\<exists>w2 w3. Release pt ?b headers ?w1 = Some (w2, None)
               \<and> remaining (bucketAt w2 ?b) = requests (ruleAt w rl) - 1
               \<and> LockBucket key w2 = Some (?b, w3)
               \<and> remaining (bucketAt w3 ?b) = requests (ruleAt w rl) - 1 - 1"
    if rl: "customRateLimit (bucketAt ?w0 ?b) = Some rl" and clock: "0 \<le> now w"
    for rl headers
  proof -
    have cr: "customRateLimit (bucketAt ?w1 ?b) = Some rl" using rl by simp
    have lr: "lastReset (bucketAt ?w1 ?b) = zeroTime" by simp
    have nw: "0 \<le> now ?w1" using clock by simp
    from Release_custom_first [OF cr held lr nw, of pt headers]
    obtain w2 where r: "Release pt ?b headers ?w1 = Some (w2, None)"
      and r2: "remaining (bucketAt w2 ?b) = requests (ruleAt w rl) - 1"
        "\<not> locked (bucketAt w2 ?b)" "buckets w2 = buckets ?w1"
      by auto
    have "map_of (buckets w2) key = Some ?b"
      using m by (simp add: r2(3))
    from LockBucket_registered [OF this r2(2)]
    obtain w3 where "LockBucket key w2 = Some (?b, w3)"
      and "remaining (bucketAt w3 ?b) = requests (ruleAt w rl) - 1 - 1"
      by (auto simp: r2(1))
    with r r2(1) show ?thesis by blast
  qed
  have F: "getBucket key w = (?b, ?w0) \<and> LockBucket key w = Some (?b, ?w1)
    \<and> remaining (bucketAt ?w0 ?b) = 1 \<and> Bucket.reset (bucketAt ?w0 ?b) = zeroTime
    \<and> now ?w1 = now w
    \<and> remaining (bucketAt ?w1 ?b) = 0
    \<and> getBucket key ?w1 = (?b, ?w1)
    \<and> LockBucket key ?w1 = None
    \<and> ((\<forall>rl \<in> set (customRateLimits w). \<not> HasSuffix key (suffix (ruleAt w rl))) \<longrightarrow>
         (\<forall>headers. headers = None
              \<or> (\<exists>h. headers = Some h \<and> Get h ''X-RateLimit-Remaining'' = []) \<longrightarrow>
            (\<exists>w2 err w3. Release pt ?b headers ?w1 = Some (w2, err)
               \<and> remaining (bucketAt w2 ?b) = 0
               \<and> LockBucket key w2 = Some (?b, w3) \<and> remaining (bucketAt w3 ?b) = - 1
               \<and> (headers = None \<and> Time_After (now w) zeroTime \<longrightarrow> now w3 = now w))))
    \<and> (\<forall>rl. customRateLimit (bucketAt ?w0 ?b) = Some rl \<and> 0 \<le> now w \<longrightarrow>
         (\<forall>headers. \<exists>w2 w3. Release pt ?b headers ?w1 = Some (w2, None)
               \<and> remaining (bucketAt w2 ?b) = requests (ruleAt w rl) - 1
               \<and> LockBucket key w2 = Some (?b, w3)
               \<and> remaining (bucketAt w3 ?b) = requests (ruleAt w rl) - 1 - 1))"
  proof (intro conjI)
    show "(\<forall>rl \<in> set (customRateLimits w). \<not> HasSuffix key (suffix (ruleAt w rl))) \<longrightarrow>
         (\<forall>headers. headers = None
              \<or> (\<exists>h. headers = Some h \<and> Get h ''X-RateLimit-Remaining'' = []) \<longrightarrow>
            (\<exists>w2 err w3. Release pt ?b headers ?w1 = Some (w2, err)
               \<and> remaining (bucketAt w2 ?b) = 0
               \<and> LockBucket key w2 = Some (?b, w3) \<and> remaining (bucketAt w3 ?b) = - 1
               \<and> (headers = None \<and> Time_After (now w) zeroTime \<longrightarrow> now w3 = now w)))"
      using plain by blast
    show "\<forall>rl. customRateLimit (bucketAt ?w0 ?b) = Some rl \<and> 0 \<le> now w \<longrightarrow>
         (\<forall>headers. \<exists>w2 w3. Release pt ?b headers ?w1 = Some (w2, None)
               \<and> remaining (bucketAt w2 ?b) = requests (ruleAt w rl) - 1
               \<and> LockBucket key w2 = Some (?b, w3)
               \<and> remaining (bucketAt w3 ?b) = requests (ruleAt w rl) - 1 - 1)"
      using ruled by blast
  qed (use g0 l1 g1 l1' in simp_all)
  show ?thesis
    by (rule exI [of _ ?b], rule exI [of _ ?w0], rule exI [of _ ?w1]) (rule F)
qed

theorem new_bucket_first_lock_witness:
  "map_option (\<lambda>r. (fst r, now (snd r), remaining (bucketAt (snd r) 0)))
     (LockBucket ''/gateway'' rule_only) = Some (0, 1600000000000000000, 0)
   \<and> map_option (\<lambda>r. (fst r, now (snd r), remaining (bucketAt (snd r) 0)))
        (Option.bind
           (Option.bind (LockBucket ''/gateway'' rule_only)
              (\<lambda>r. Release parse_one_date (fst r) None (snd r)))
           (\<lambda>r. LockBucket ''/gateway'' (fst r))) = Some (0, 1600000000000000000, - 1)
   \<and> map_option (\<lambda>r. (remaining (bucketAt (fst r) 0), snd r))
        (Option.bind (LockBucket ''/channels/2/messages'' rule_only)
           (\<lambda>r. Release parse_one_date (fst r)
                  (Some [''X-Ratelimit-Remaining'' \<mapsto> [''7'']]) (snd r))) = Some (4, None)"
proof -
  let ?k = "''/channels/2/messages''"
  let ?h = "Some [''X-Ratelimit-Remaining'' \<mapsto> [''7'']]"
  have m: "map_of (buckets rule_only) ''/gateway'' = None"
    by (simp add: rule_only_simps)
  have q: "\<not> Time_Before (now rule_only) (Unix 0 (global rule_only))"
    by (simp add: rule_only_simps Time_Before_def Unix_0)
  have none: "\<forall>rl \<in> set (customRateLimits rule_only).
      \<not> HasSuffix ''/gateway'' (suffix (ruleAt rule_only rl))"
    by (simp add: rule_only_simps HasSuffix_def)
  have after: "Time_After (now rule_only) zeroTime"
    by (simp add: rule_only_simps Time_After_def zeroTime_def)
  have n: "fst (getBucket ''/gateway'' rule_only) = 0"
    by (simp add: getBucket_new [OF m] rule_only_simps)
  from new_bucket_first_lock [OF m q, of parse_one_date] obtain b w0 w1
    where g: "getBucket ''/gateway'' rule_only = (b, w0)"
      and l: "LockBucket ''/gateway'' rule_only = Some (b, w1)"
      and n1: "now w1 = now rule_only"
      and r1: "remaining (bucketAt w1 b) = 0"
      and rest: "(\<forall>rl \<in> set (customRateLimits rule_only).
            \<not> HasSuffix ''/gateway'' (suffix (ruleAt rule_only rl))) \<longrightarrow>
         (\<forall>headers. headers = None
              \<or> (\<exists>h. headers = Some h \<and> Get h ''X-RateLimit-Remaining'' = []) \<longrightarrow>
            (\<exists>w2 err w3. Release parse_one_date b headers w1 = Some (w2, err)
               \<and> remaining (bucketAt w2 b) = 0
               \<and> LockBucket ''/gateway'' w2 = Some (b, w3) \<and> remaining (bucketAt w3 b) = - 1
               \<and> (headers = None \<and> Time_After (now rule_only) zeroTime
                    \<longrightarrow> now w3 = now rule_only)))"
    by (elim exE conjE) (rule that)
  from rest none after obtain w2 err w3
    where "Release parse_one_date b None w1 = Some (w2, err)"
      and "LockBucket ''/gateway'' w2 = Some (b, w3)"
      and "remaining (bucketAt w3 b) = - 1"
      and "now w3 = now rule_only"
    by blast
  moreover have "b = 0" using g n by simp
  ultimately have plain: "map_option (\<lambda>r. (fst r, now (snd r), remaining (bucketAt (snd r) 0)))
     (LockBucket ''/gateway'' rule_only) = Some (0, 1600000000000000000, 0)
   \<and> map_option (\<lambda>r. (fst r, now (snd r), remaining (bucketAt (snd r) 0)))
        (Option.bind
           (Option.bind (LockBucket ''/gateway'' rule_only)
              (\<lambda>r. Release parse_one_date (fst r) None (snd r)))
           (\<lambda>r. LockBucket ''/gateway'' (fst r))) = Some (0, 1600000000000000000, - 1)"
    using l n1 r1 by (simp add: rule_only_simps)
  have m': "map_of (buckets rule_only) ?k = None"
    by (simp add: rule_only_simps)
  have n': "fst (getBucket ?k rule_only) = 0"
    "customRateLimit (bucketAt (snd (getBucket ?k rule_only)) 0) = Some 0"
    by (simp_all add: getBucket_new [OF m'] rule_only_simps HasSuffix_def)
  have clock: "0 \<le> now rule_only"
    by (simp add: rule_only_simps)
  from new_bucket_first_lock [OF m' q, of parse_one_date] obtain b' w0' w1'
    where g': "getBucket ?k rule_only = (b', w0')"
      and l': "LockBucket ?k rule_only = Some (b', w1')"
      and ruled: "\<forall>rl. customRateLimit (bucketAt w0' b') = Some rl \<and> 0 \<le> now rule_only \<longrightarrow>
         (\<forall>headers. \<exists>w2 w3. Release parse_one_date b' headers w1' = Some (w2, None)
               \<and> remaining (bucketAt w2 b') = requests (ruleAt rule_only rl) - 1
               \<and> LockBucket ?k w2 = Some (b', w3)
               \<and> remaining (bucketAt w3 b') = requests (ruleAt rule_only rl) - 1 - 1)"
    by (elim exE conjE) (rule that)
  have b': "b' = 0" and c': "customRateLimit (bucketAt w0' b') = Some 0"
    using g' n' by simp_all
  from ruled c' clock obtain w2' where "Release parse_one_date b' ?h w1' = Some (w2', None)"
    and "remaining (bucketAt w2' b') = requests (ruleAt rule_only 0) - 1"
    by blast
  then have "map_option (\<lambda>r. (remaining (bucketAt (fst r) 0), snd r))
        (Option.bind (LockBucket ?k rule_only)
           (\<lambda>r. Release parse_one_date (fst r) ?h (snd r))) = Some (4, None)"
    using l' b' by (simp add: rule_only_simps)
  with plain show ?thesis by (simp only: simp_thms)
qed

text \<open>
  The claim C10 as stated fails for a key that a rule's suffix ends: at \<open>rule_only\<close> the first
  \<^verbatim>\<open>LockBucket\<close> on \<^verbatim>\<open>/channels/2/messages\<close> leaves \<open>remaining = 0\<close>, \<^verbatim>\<open>Release(nil)\<close> sets it
  to 4 with no header read, and the second \<^verbatim>\<open>LockBucket\<close> finds 4 and leaves 3.
\<close>

theorem new_bucket_first_lock_counterexample:
  "map_of (buckets rule_only) ''/channels/2/messages'' = None
   \<and> \<not> Time_Before (now rule_only) (Unix 0 (global rule_only))
   \<and> map_option (\<lambda>r. (fst r, remaining (bucketAt (snd r) 0)))
        (LockBucket ''/channels/2/messages'' rule_only) = Some (0, 0)
   \<and> map_option (\<lambda>r. (remaining (bucketAt (fst r) 0), snd r))
        (Option.bind (LockBucket ''/channels/2/messages'' rule_only)
           (\<lambda>r. Release parse_one_date (fst r) None (snd r))) = Some (4, None)
   \<and> map_option (\<lambda>r. (fst r, remaining (bucketAt (snd r) 0)))
        (Option.bind
           (Option.bind (LockBucket ''/channels/2/messages'' rule_only)
              (\<lambda>r. Release parse_one_date (fst r) None (snd r)))
           (\<lambda>r. LockBucket ''/channels/2/messages'' (fst r))) = Some (0, 3)"
proof -
  let ?k = "''/channels/2/messages''"
  let ?new = "\<lparr>locked = False, Key = ?k, remaining = 1, limit = 0, reset = zeroTime,
               lastReset = zeroTime, customRateLimit = Some 0\<rparr>"
  let ?w0 = "rule_only\<lparr>bucketAt := (bucketAt rule_only)(0 := ?new),
         nextBucket := Suc 0, buckets := [(?k, 0)]\<rparr>"
  let ?w1 = "?w0\<lparr>bucketAt := (bucketAt rule_only)(0 := ?new\<lparr>locked := True, remaining := 0\<rparr>)\<rparr>"
  let ?w2 = "?w0\<lparr>bucketAt := (bucketAt rule_only)
      (0 := ?new\<lparr>locked := False, remaining := 4, lastReset := 1600000000000000000\<rparr>)\<rparr>"
  have m: "map_of (buckets rule_only) ?k = None"
    by (simp add: rule_only_simps)
  have q: "\<not> Time_Before (now rule_only) (Unix 0 (global rule_only))"
    by (simp add: rule_only_simps Time_Before_def Unix_0)
  have mr: "match_rule (ruleAt rule_only) ?k (customRateLimits rule_only) = Some 0"
    by (simp add: rule_only_simps HasSuffix_def)
  have g0: "getBucket ?k rule_only = (0, ?w0)"
    unfolding getBucket_new [OF m] mr by (simp add: rule_only_simps)
  have idle: "wait_global (wait_reset 0 (update_bucket 0 (\<lambda>v. v\<lparr>locked := True\<rparr>) ?w0))
      = update_bucket 0 (\<lambda>v. v\<lparr>locked := True\<rparr>) ?w0"
    by (simp add: wait_reset_def wait_global_def Let_def update_bucket_def Time_Before_def
        rule_only_simps Unix_0)
  have l1: "LockBucket ?k rule_only = Some (0, ?w1)"
    unfolding LockBucket_returns [OF g0, simplified] idle
    by (simp add: update_bucket_def)
  have ts: "Time_Sub 1600000000000000000 zeroTime = maxDuration"
    by (simp add: Time_Sub_def zeroTime_def)
  have r: "Release parse_one_date 0 None ?w1 = Some (?w2, None)"
    by (simp add: Release_def Release_body_def Release_custom_def Unlock_def update_bucket_def
        Let_def rule_only_simps ts maxDuration_def)
  have g2: "getBucket ?k ?w2 = (0, ?w2)"
    by (simp add: getBucket_def)
  let ?w3 = "?w2\<lparr>now := now (wait_global (wait_reset 0
                  (update_bucket 0 (\<lambda>v. v\<lparr>locked := True\<rparr>) ?w2))),
                bucketAt := (bucketAt ?w2)
                   (0 := (bucketAt ?w2 0)\<lparr>locked := True,
                                          remaining := remaining (bucketAt ?w2 0) - 1\<rparr>)\<rparr>"
  have l2': "LockBucket ?k ?w2 = Some (0, ?w3)"
    by (rule LockBucket_returns [OF g2]) simp
  have l2: "map_option (\<lambda>r. (fst r, remaining (bucketAt (snd r) 0))) (LockBucket ?k ?w2)
      = Some (0, 3)"
    unfolding l2' by simp
  show ?thesis
    unfolding l1 using m q r l2 by simp
qed

subsection \<open>The loop over the registered buckets\<close>

lemma fold_update_bucket:
  assumes "\<And>v. f (f v) = f v"
  shows "fold (\<lambda>kv. update_bucket (snd kv) f) l w =
     w\<lparr>bucketAt := (\<lambda>a. if a \<in> snd ` set l then f (bucketAt w a) else bucketAt w a)\<rparr>"
proof (induction l arbitrary: w)
  case Nil
  then show ?case by simp
next
  case (Cons x l)
  have "(\<lambda>a. if a \<in> snd ` set l then f (bucketAt (update_bucket (snd x) f w) a)
              else bucketAt (update_bucket (snd x) f w) a)
      = (\<lambda>a. if a \<in> snd ` set (x # l) then f (bucketAt w a) else bucketAt w a)"
    by (rule ext) (auto simp: update_bucket_def assms)
  then show ?case
    by (simp add: Cons.IH) (simp add: update_bucket_def)
qed

lemma range_buckets_eq:
  assumes "\<And>v. f (f v) = f v"
  shows "range_buckets f w =
     w\<lparr>bucketAt := (\<lambda>a. if a \<in> snd ` set (buckets w) then f (bucketAt w a) else bucketAt w a)\<rparr>"
  unfolding range_buckets_def by (rule fold_update_bucket) (rule assms)

lemma attach_idem: "attach sfx rl (attach sfx rl v) = attach sfx rl v"
  by (simp add: attach_def)

lemma detach_idem: "detach h sfx (detach h sfx v) = detach h sfx v"
  by (simp add: detach_def split: option.splits)

lemma detach_eq:
  "detach h sfx v =
     (if \<exists>rl. customRateLimit v = Some rl \<and> suffix (h rl) = sfx
      then v\<lparr>customRateLimit := None\<rparr> else v)"
  by (auto simp: detach_def split: option.splits)

lemma find_index_None:
  "find_index h sfx i l = None \<longleftrightarrow> (\<forall>rl \<in> set l. suffix (h rl) \<noteq> sfx)"
  by (induction l arbitrary: i) auto

lemma find_index_Some:
  "find_index h sfx i l = Some n \<Longrightarrow>
     i \<le> n \<and> n - i < length l \<and> suffix (h (l ! (n - i))) = sfx
     \<and> (\<forall>j < n - i. suffix (h (l ! j)) \<noteq> sfx)"
proof (induction l arbitrary: i)
  case Nil
  then show ?case by simp
next
  case (Cons a l)
  show ?case
  proof (cases "suffix (h a) = sfx")
    case True
    with Cons.prems show ?thesis by simp
  next
    case False
    with Cons.prems have "find_index h sfx (Suc i) l = Some n" by simp
    from Cons.IH [OF this] have ih: "Suc i \<le> n" "n - Suc i < length l"
      "suffix (h (l ! (n - Suc i))) = sfx" "\<forall>j < n - Suc i. suffix (h (l ! j)) \<noteq> sfx"
      by auto
    have eq: "n - i = Suc (n - Suc i)" using ih(1) by simp
    have "\<forall>j < n - i. suffix (h ((a # l) ! j)) \<noteq> sfx"
    proof (intro allI impI)
      fix j assume j: "j < n - i"
      show "suffix (h ((a # l) ! j)) \<noteq> sfx"
      proof (cases j)
        case 0
        with False show ?thesis by simp
      next
        case (Suc j')
        with j eq ih(4) show ?thesis by simp
      qed
    qed
    with ih eq show ?thesis by simp
  qed
qed

lemma two_buckets_simps:
  "buckets two_buckets = [(''/channels/1/messages'', 0), (''/pinmessages'', 1)]"
  "customRateLimits two_buckets = [0, 1]"
  "suffix (ruleAt two_buckets 0) = ''/messages''"
  "suffix (ruleAt two_buckets (Suc 0)) = ''messages''"
  "nextRule two_buckets = 2"
  "customRateLimit (bucketAt two_buckets 0) = Some 0"
  "customRateLimit (bucketAt two_buckets (Suc 0)) = Some 1"
  "Key (bucketAt two_buckets 0) = ''/channels/1/messages''"
  "Key (bucketAt two_buckets (Suc 0)) = ''/pinmessages''"
  by (simp_all add: two_buckets_def two_rules_def one_rule_def one_bucket_def NewRatelimiter_def
      ruled_bucket_def held_bucket_def)

subsection \<open>RemoveCustomRateLimit\<close>

text \<open>
  C7. \<^verbatim>\<open>RemoveCustomRateLimit\<close> returns the not-found error exactly when no rule of the slice
  has the suffix, and no error otherwise. With the error the state is unchanged. Without it,
  the first rule with the suffix is taken out of the slice (one element, the others keep their
  order), every registered bucket whose rule has exactly this suffix has its rule set to
  \<^verbatim>\<open>nil\<close>, and every other bucket, the rules themselves and the rest of the state are as
  they were.
\<close>

theorem RemoveCustomRateLimit_detaches:
  "(snd (RemoveCustomRateLimit sfx w) = Some ErrNotFound
      \<longleftrightarrow> (\<forall>rl \<in> set (customRateLimits w). suffix (ruleAt w rl) \<noteq> sfx))
   \<and> (snd (RemoveCustomRateLimit sfx w) = None
      \<longleftrightarrow> (\<exists>rl \<in> set (customRateLimits w). suffix (ruleAt w rl) = sfx))
   \<and> (snd (RemoveCustomRateLimit sfx w) = Some ErrNotFound \<longrightarrow> fst (RemoveCustomRateLimit sfx w) = w)
   \<and> (snd (RemoveCustomRateLimit sfx w) = None \<longrightarrow>
        (\<exists>i < length (customRateLimits w).
            suffix (ruleAt w (customRateLimits w ! i)) = sfx
          \<and> (\<forall>j < i. suffix (ruleAt w (customRateLimits w ! j)) \<noteq> sfx)
          \<and> fst (RemoveCustomRateLimit sfx w) =
              w\<lparr>customRateLimits := take i (customRateLimits w) @ drop (Suc i) (customRateLimits w),
                bucketAt := (\<lambda>a.
                  if a \<in> snd ` set (buckets w)
                     \<and> (\<exists>rl. customRateLimit (bucketAt w a) = Some rl \<and> suffix (ruleAt w rl) = sfx)
                  then (bucketAt w a)\<lparr>customRateLimit := None\<rparr>
                  else bucketAt w a)\<rparr>))"
proof (cases "find_index (ruleAt w) sfx 0 (customRateLimits w)")
  case None
  then have "\<forall>rl \<in> set (customRateLimits w). suffix (ruleAt w rl) \<noteq> sfx"
    by (simp add: find_index_None)
  with None show ?thesis
    by (simp add: RemoveCustomRateLimit_def)
next
  case (Some i)
  from find_index_Some [OF this] have i: "i < length (customRateLimits w)"
    "suffix (ruleAt w (customRateLimits w ! i)) = sfx"
    "\<forall>j < i. suffix (ruleAt w (customRateLimits w ! j)) \<noteq> sfx"
    by simp_all
  then have ex: "\<exists>rl \<in> set (customRateLimits w). suffix (ruleAt w rl) = sfx"
    using nth_mem by blast
  let ?w1 = "w\<lparr>customRateLimits :=
                take i (customRateLimits w) @ drop (Suc i) (customRateLimits w)\<rparr>"
  have r: "RemoveCustomRateLimit sfx w = (range_buckets (detach (ruleAt ?w1) sfx) ?w1, None)"
    using Some by (simp add: RemoveCustomRateLimit_def Let_def)
  have "range_buckets (detach (ruleAt ?w1) sfx) ?w1 =
      ?w1\<lparr>bucketAt := (\<lambda>a. if a \<in> snd ` set (buckets ?w1)
                then detach (ruleAt ?w1) sfx (bucketAt ?w1 a) else bucketAt ?w1 a)\<rparr>"
    by (rule range_buckets_eq) (rule detach_idem)
  also have "(\<lambda>a. if a \<in> snd ` set (buckets ?w1)
                then detach (ruleAt ?w1) sfx (bucketAt ?w1 a) else bucketAt ?w1 a)
      = (\<lambda>a. if a \<in> snd ` set (buckets w)
                     \<and> (\<exists>rl. customRateLimit (bucketAt w a) = Some rl \<and> suffix (ruleAt w rl) = sfx)
                  then (bucketAt w a)\<lparr>customRateLimit := None\<rparr>
                  else bucketAt w a)"
    by (rule ext) (auto simp: detach_eq)
  finally have st: "fst (RemoveCustomRateLimit sfx w) =
      w\<lparr>customRateLimits := take i (customRateLimits w) @ drop (Suc i) (customRateLimits w),
        bucketAt := (\<lambda>a.
          if a \<in> snd ` set (buckets w)
             \<and> (\<exists>rl. customRateLimit (bucketAt w a) = Some rl \<and> suffix (ruleAt w rl) = sfx)
          then (bucketAt w a)\<lparr>customRateLimit := None\<rparr>
          else bucketAt w a)\<rparr>"
    by (simp add: r)
  have e: "snd (RemoveCustomRateLimit sfx w) = None"
    by (simp add: r)
  show ?thesis
    unfolding e using ex i st by auto
qed

theorem RemoveCustomRateLimit_detaches_witness:
  "snd (RemoveCustomRateLimit ''/typing'' two_buckets) = Some ErrNotFound
   \<and> fst (RemoveCustomRateLimit ''/typing'' two_buckets) = two_buckets
   \<and> snd (RemoveCustomRateLimit ''/messages'' two_buckets) = None
   \<and> customRateLimits (fst (RemoveCustomRateLimit ''/messages'' two_buckets)) = [1]
   \<and> customRateLimit (bucketAt (fst (RemoveCustomRateLimit ''/messages'' two_buckets)) 0) = None
   \<and> customRateLimit (bucketAt (fst (RemoveCustomRateLimit ''/messages'' two_buckets)) 1) = Some 1"
proof -
  have none: "\<forall>rl \<in> set (customRateLimits two_buckets). suffix (ruleAt two_buckets rl) \<noteq> ''/typing''"
    by (simp add: two_buckets_simps)
  have some: "\<exists>rl \<in> set (customRateLimits two_buckets). suffix (ruleAt two_buckets rl) = ''/messages''"
    by (simp add: two_buckets_simps)
  have a: "snd (RemoveCustomRateLimit ''/typing'' two_buckets) = Some ErrNotFound"
    "fst (RemoveCustomRateLimit ''/typing'' two_buckets) = two_buckets"
    using RemoveCustomRateLimit_detaches [of "''/typing''" two_buckets] none by blast+
  have b: "snd (RemoveCustomRateLimit ''/messages'' two_buckets) = None"
    using RemoveCustomRateLimit_detaches [of "''/messages''" two_buckets] some by blast
  have c: "customRateLimits (fst (RemoveCustomRateLimit ''/messages'' two_buckets)) = [1]"
    "customRateLimit (bucketAt (fst (RemoveCustomRateLimit ''/messages'' two_buckets)) 0) = None"
    "customRateLimit (bucketAt (fst (RemoveCustomRateLimit ''/messages'' two_buckets)) 1) = Some 1"
    by (simp_all add: RemoveCustomRateLimit_def range_buckets_def update_bucket_def detach_def
        two_buckets_simps)
  from a b c show ?thesis by simp
qed

subsection \<open>SetCustomRateLimit\<close>

lemma find_rule_find:
  "find_rule h sfx l = List.find (\<lambda>v. suffix (h v) = sfx) l"
  by (induction l) auto

lemma find_rule_None:
  "find_rule h sfx l = None \<longleftrightarrow> (\<forall>v \<in> set l. suffix (h v) \<noteq> sfx)"
  by (induction l) auto

lemma find_rule_Some:
  "find_rule h sfx l = Some v \<longleftrightarrow>
     (\<exists>i < length l. l ! i = v \<and> suffix (h v) = sfx \<and> (\<forall>j < i. suffix (h (l ! j)) \<noteq> sfx))"
  unfolding find_rule_find find_Some_iff by auto

lemma attach_eq:
  "(\<lambda>a. if a \<in> S then attach sfx rl (f a) else f a)
     = (\<lambda>a. if a \<in> S \<and> HasSuffix (Key (f a)) sfx then (f a)\<lparr>customRateLimit := Some rl\<rparr>
             else f a)"
  by (rule ext) (simp add: attach_def)

text \<open>
  C8. \<^verbatim>\<open>SetCustomRateLimit\<close> settles on one rule pointer \<open>rl\<close>. If a rule of the slice has the
  suffix, \<open>rl\<close> is the first such rule, the slice is unchanged and nothing is allocated; if
  none has, \<open>rl\<close> is a newly allocated rule appended to the slice. Either way the store holds
  the suffix and the new \<open>requests\<close> and \<open>reset\<close> at \<open>rl\<close> and is unchanged elsewhere, so a
  bucket that pointed at \<open>rl\<close> before still does and reads the new values. Every registered
  bucket whose \<open>Key\<close> ends with the suffix points at \<open>rl\<close> afterwards, whatever it pointed at
  before; every other bucket and the rest of the state are as they were.
\<close>

theorem SetCustomRateLimit_upserts:
  "\<exists>rl. ((\<exists>v \<in> set (customRateLimits w). suffix (ruleAt w v) = sfx) \<longrightarrow>
            (\<exists>i < length (customRateLimits w). customRateLimits w ! i = rl
               \<and> suffix (ruleAt w rl) = sfx
               \<and> (\<forall>j < i. suffix (ruleAt w (customRateLimits w ! j)) \<noteq> sfx))
          \<and> customRateLimits (SetCustomRateLimit sfx reqs rst w) = customRateLimits w
          \<and> nextRule (SetCustomRateLimit sfx reqs rst w) = nextRule w)
     \<and> ((\<forall>v \<in> set (customRateLimits w). suffix (ruleAt w v) \<noteq> sfx) \<longrightarrow>
            rl = nextRule w
          \<and> customRateLimits (SetCustomRateLimit sfx reqs rst w) = customRateLimits w @ [rl]
          \<and> nextRule (SetCustomRateLimit sfx reqs rst w) = Suc (nextRule w))
     \<and> ruleAt (SetCustomRateLimit sfx reqs rst w)
          = (ruleAt w)(rl := \<lparr>suffix = sfx, requests = reqs, reset = rst\<rparr>)
     \<and> bucketAt (SetCustomRateLimit sfx reqs rst w)
          = (\<lambda>a. if a \<in> snd ` set (buckets w) \<and> HasSuffix (Key (bucketAt w a)) sfx
                 then (bucketAt w a)\<lparr>customRateLimit := Some rl\<rparr>
                 else bucketAt w a)
     \<and> (\<forall>a. customRateLimit (bucketAt w a) = Some rl \<longrightarrow>
            customRateLimit (bucketAt (SetCustomRateLimit sfx reqs rst w) a) = Some rl
          \<and> requests (ruleAt (SetCustomRateLimit sfx reqs rst w) rl) = reqs
          \<and> customRateLimit.reset (ruleAt (SetCustomRateLimit sfx reqs rst w) rl) = rst)
     \<and> SetCustomRateLimit sfx reqs rst w
          = w\<lparr>customRateLimits := customRateLimits (SetCustomRateLimit sfx reqs rst w),
              nextRule := nextRule (SetCustomRateLimit sfx reqs rst w),
              ruleAt := ruleAt (SetCustomRateLimit sfx reqs rst w),
              bucketAt := bucketAt (SetCustomRateLimit sfx reqs rst w)\<rparr>"
proof (cases "find_rule (ruleAt w) sfx (customRateLimits w)")
  case None
  then have none: "\<forall>v \<in> set (customRateLimits w). suffix (ruleAt w v) \<noteq> sfx"
    by (simp add: find_rule_None)
  let ?rl = "nextRule w"
  let ?w1 = "w\<lparr>ruleAt := (ruleAt w)(?rl := \<lparr>suffix = sfx, requests = reqs, reset = rst\<rparr>),
               nextRule := Suc ?rl,
               customRateLimits := customRateLimits w @ [?rl]\<rparr>"
  have "SetCustomRateLimit sfx reqs rst w = range_buckets (attach sfx ?rl) ?w1"
    using None by (simp add: SetCustomRateLimit_def Let_def)
  also have "\<dots> = ?w1\<lparr>bucketAt := (\<lambda>a. if a \<in> snd ` set (buckets ?w1)
        then attach sfx ?rl (bucketAt ?w1 a) else bucketAt ?w1 a)\<rparr>"
    by (rule range_buckets_eq) (rule attach_idem)
  finally have eq: "SetCustomRateLimit sfx reqs rst w =
      ?w1\<lparr>bucketAt := (\<lambda>a. if a \<in> snd ` set (buckets w) \<and> HasSuffix (Key (bucketAt w a)) sfx
                 then (bucketAt w a)\<lparr>customRateLimit := Some ?rl\<rparr>
                 else bucketAt w a)\<rparr>"
    by (simp add: attach_eq cong: if_cong)
  show ?thesis
    by (rule exI [of _ ?rl]) (use none in \<open>simp add: eq\<close>)
next
  case (Some v)
  then have v: "\<exists>i < length (customRateLimits w). customRateLimits w ! i = v
      \<and> suffix (ruleAt w v) = sfx
      \<and> (\<forall>j < i. suffix (ruleAt w (customRateLimits w ! j)) \<noteq> sfx)"
    by (simp add: find_rule_Some)
  then have sv: "suffix (ruleAt w v) = sfx" by blast
  have ex: "\<exists>v \<in> set (customRateLimits w). suffix (ruleAt w v) = sfx"
    using v nth_mem by blast
  have rec: "(ruleAt w v)\<lparr>requests := reqs, customRateLimit.reset := rst\<rparr>
      = \<lparr>suffix = sfx, requests = reqs, reset = rst\<rparr>"
    using sv by (cases "ruleAt w v") simp
  let ?w1 = "w\<lparr>ruleAt := (ruleAt w)(v := \<lparr>suffix = sfx, requests = reqs, reset = rst\<rparr>)\<rparr>"
  have "SetCustomRateLimit sfx reqs rst w = range_buckets (attach sfx v) ?w1"
    using Some by (simp add: SetCustomRateLimit_def Let_def rec)
  also have "\<dots> = ?w1\<lparr>bucketAt := (\<lambda>a. if a \<in> snd ` set (buckets ?w1)
        then attach sfx v (bucketAt ?w1 a) else bucketAt ?w1 a)\<rparr>"
    by (rule range_buckets_eq) (rule attach_idem)
  finally have eq: "SetCustomRateLimit sfx reqs rst w =
      ?w1\<lparr>bucketAt := (\<lambda>a. if a \<in> snd ` set (buckets w) \<and> HasSuffix (Key (bucketAt w a)) sfx
                 then (bucketAt w a)\<lparr>customRateLimit := Some v\<rparr>
                 else bucketAt w a)\<rparr>"
    by (simp add: attach_eq cong: if_cong)
  show ?thesis
    by (rule exI [of _ v]) (use ex v in \<open>simp add: eq\<close>)
qed

theorem SetCustomRateLimit_upserts_witness:
  "customRateLimits (SetCustomRateLimit ''messages'' 7 3000000000 two_buckets) = [0, 1]
   \<and> ruleAt (SetCustomRateLimit ''messages'' 7 3000000000 two_buckets) 1
        = \<lparr>suffix = ''messages'', requests = 7, reset = 3000000000\<rparr>
   \<and> customRateLimit (bucketAt (SetCustomRateLimit ''messages'' 7 3000000000 two_buckets) 0) = Some 1
   \<and> customRateLimit (bucketAt (SetCustomRateLimit ''messages'' 7 3000000000 two_buckets) 1) = Some 1
   \<and> customRateLimits (SetCustomRateLimit ''/typing'' 5 1000000000 two_buckets) = [0, 1, 2]
   \<and> ruleAt (SetCustomRateLimit ''/typing'' 5 1000000000 two_buckets) 2
        = \<lparr>suffix = ''/typing'', requests = 5, reset = 1000000000\<rparr>
   \<and> customRateLimit (bucketAt (SetCustomRateLimit ''/typing'' 5 1000000000 two_buckets) 0) = Some 0"
proof -
  have none: "\<forall>v \<in> set (customRateLimits two_buckets). suffix (ruleAt two_buckets v) \<noteq> ''/typing''"
    by (simp add: two_buckets_simps)
  have some: "\<exists>v \<in> set (customRateLimits two_buckets). suffix (ruleAt two_buckets v) = ''messages''"
    by (simp add: two_buckets_simps)
  have a: "customRateLimits (SetCustomRateLimit ''messages'' 7 3000000000 two_buckets) = [0, 1]"
    using SetCustomRateLimit_upserts [of two_buckets "''messages''" 7 3000000000] some
    by (auto simp: two_buckets_simps)
  have b: "customRateLimits (SetCustomRateLimit ''/typing'' 5 1000000000 two_buckets) = [0, 1, 2]"
    "ruleAt (SetCustomRateLimit ''/typing'' 5 1000000000 two_buckets) 2
        = \<lparr>suffix = ''/typing'', requests = 5, reset = 1000000000\<rparr>"
    using SetCustomRateLimit_upserts [of two_buckets "''/typing''" 5 1000000000] none
    by (auto simp: two_buckets_simps)
  have c: "ruleAt (SetCustomRateLimit ''messages'' 7 3000000000 two_buckets) 1
        = \<lparr>suffix = ''messages'', requests = 7, reset = 3000000000\<rparr>"
    "customRateLimit (bucketAt (SetCustomRateLimit ''messages'' 7 3000000000 two_buckets) 0) = Some 1"
    "customRateLimit (bucketAt (SetCustomRateLimit ''messages'' 7 3000000000 two_buckets) 1) = Some 1"
    "customRateLimit (bucketAt (SetCustomRateLimit ''/typing'' 5 1000000000 two_buckets) 0) = Some 0"
    by (simp_all add: SetCustomRateLimit_def range_buckets_def update_bucket_def attach_def
        HasSuffix_def two_buckets_simps Let_def)
  from a b c show ?thesis by simp
qed

subsection \<open>The invariant of the clock is kept\<close>

lemma timely_NewRatelimiter: "0 \<le> t \<Longrightarrow> timely (NewRatelimiter t)"
  by (simp add: timely_def NewRatelimiter_def zeroTime_def)

lemma timely_later: "timely w \<Longrightarrow> now w \<le> t \<Longrightarrow> timely (w\<lparr>now := t\<rparr>)"
  unfolding timely_def by (auto intro: order_trans)

lemma timely_getBucket:
  assumes "timely w"
  shows "timely (snd (getBucket key w))"
  using assms
  by (auto simp: timely_def getBucket_def Let_def zeroTime_def split: option.splits)

lemma timely_LockBucket_pre:
  assumes "timely w" and "getBucket key w = (b, w1)"
  shows "0 \<le> now w \<and> Bucket.reset (bucketAt w1 b) \<le> now w + 9223372036854775807"
proof -
  have "timely w1" using timely_getBucket [OF assms(1), of key] assms(2) by simp
  moreover have "now w1 = now w"
    using assms(2) by (auto simp: getBucket_def Let_def split: option.splits)
  ultimately show ?thesis by (simp add: timely_def)
qed

lemma timely_LockBucket:
  assumes "timely w" and "LockBucket key w = Some (b, w')"
  shows "timely w'"
proof -
  obtain b1 w1 where g: "getBucket key w = (b1, w1)"
    by (cases "getBucket key w")
  have t1: "timely w1" using timely_getBucket [OF assms(1), of key] g by simp
  have free: "\<not> locked (bucketAt w1 b1)"
    using assms(2) g by (auto simp: LockBucket_def split: if_splits)
  let ?w2 = "update_bucket b1 (\<lambda>v. v\<lparr>locked := True\<rparr>) w1"
  obtain t3 where t3: "now ?w2 \<le> t3" "wait_reset b1 ?w2 = ?w2\<lparr>now := t3\<rparr>"
    using wait_reset_frame [of ?w2 b1] by blast
  obtain t4 where t4: "t3 \<le> t4" "wait_global (?w2\<lparr>now := t3\<rparr>) = ?w2\<lparr>now := t3\<rparr>\<lparr>now := t4\<rparr>"
    using wait_global_frame [of "?w2\<lparr>now := t3\<rparr>"] by auto
  have "w' = w1\<lparr>now := t4,
                 bucketAt := (bucketAt w1)
                   (b1 := (bucketAt w1 b1)\<lparr>locked := True,
                                          remaining := remaining (bucketAt w1 b1) - 1\<rparr>)\<rparr>"
    using assms(2) unfolding LockBucket_returns [OF g free] by (auto simp: t3 t4)
  moreover have "now w1 \<le> t4" using t3(1) t4(1) by (simp add: update_bucket_def)
  ultimately show ?thesis
    using t1 unfolding timely_def by (auto intro: order_trans)
qed

lemma timely_Release:
  assumes "timely w" and "Release pt b headers w = Some (w', err)"
  shows "timely w'"
proof -
  have add: "Time_Add (now w) d \<le> now w + 9223372036854775807" for d
    using sint_bounds64 [of d] by (simp add: Time_Add_def)
  have body: "timely (fst (Release_body pt b headers w))"
    using assms(1) add
    by (auto simp: timely_def Release_body_def Release_custom_def Release_reset_def
        Release_remaining_def Let_def update_bucket_def
        split: option.splits sum.splits if_splits)
  obtain w1 e where r: "Release_body pt b headers w = (w1, e)"
    by (cases "Release_body pt b headers w")
  have "w' = update_bucket b (\<lambda>v. v\<lparr>locked := False\<rparr>) w1"
    using assms(2) by (auto simp: Release_def r Unlock_def split: if_splits)
  with body r show ?thesis
    by (simp add: timely_def update_bucket_def)
qed

lemma fold_update_bucket_timely:
  assumes "\<And>v. Bucket.reset (f v) = Bucket.reset v" and "timely w"
  shows "timely (fold (\<lambda>kv. update_bucket (snd kv) f) l w)"
  using assms(2)
proof (induction l arbitrary: w)
  case Nil
  then show ?case by simp
next
  case (Cons x l)
  have "timely (update_bucket (snd x) f w)"
    using Cons.prems by (simp add: timely_def update_bucket_def assms(1))
  then show ?case by (simp add: Cons.IH)
qed

lemma timely_SetCustomRateLimit:
  assumes "timely w"
  shows "timely (SetCustomRateLimit sfx reqs rst w)"
proof -
  have f: "Bucket.reset (attach s rl v) = Bucket.reset v" for s rl v
    by (simp add: attach_def)
  have pre: "timely (w\<lparr>ruleAt := h, nextRule := n, customRateLimits := l\<rparr>)" for h n l
    using assms by (simp add: timely_def)
  have pre': "timely (w\<lparr>ruleAt := h\<rparr>)" for h
    using assms by (simp add: timely_def)
  show ?thesis
    unfolding SetCustomRateLimit_def range_buckets_def Let_def
    by (auto split: option.splits intro!: fold_update_bucket_timely f pre pre')
qed

lemma timely_RemoveCustomRateLimit:
  assumes "timely w"
  shows "timely (fst (RemoveCustomRateLimit sfx w))"
proof -
  have f: "Bucket.reset (detach h s v) = Bucket.reset v" for h s v
    by (simp add: detach_def split: option.splits)
  have pre: "timely (w\<lparr>customRateLimits := l\<rparr>)" for l
    using assms by (simp add: timely_def)
  show ?thesis
    unfolding RemoveCustomRateLimit_def range_buckets_def Let_def
    by (auto split: option.splits intro!: fold_update_bucket_timely f pre assms)
qed

end
